theory Spec2Isabelle
  imports Main "HOL-Library.AList"
begin

section \<open>Characters and strings\<close>

text \<open>
  A Python \<^verbatim>\<open>str\<close> is a sequence of code points. The embedding uses \<^typ>\<open>string\<close>, so
  it covers the code points below 256; \<open>code\<close> reads one. The classes below are the
  ones that \<^verbatim>\<open>str.strip\<close> and the \<^verbatim>\<open>re\<close> module use for \<^verbatim>\<open>str\<close> patterns, restricted
  to that range: \<^verbatim>\<open>str.isspace\<close> (also \<^verbatim>\<open>\s\<close>), \<^verbatim>\<open>\d\<close>, and \<^verbatim>\<open>\w\<close>
  (alphanumeric code points and the underscore).
\<close>

definition code :: "char \<Rightarrow> int" where
  "code c = of_char c"

definition in_range :: "int \<Rightarrow> int \<Rightarrow> int \<Rightarrow> bool" where
  "in_range lo hi n = (lo \<le> n \<and> n \<le> hi)"

definition isspace_code :: "int \<Rightarrow> bool" where
  "isspace_code n = (in_range 9 13 n \<or> in_range 28 32 n \<or> n = 133 \<or> n = 160)"

definition isdecimal_code :: "int \<Rightarrow> bool" where
  "isdecimal_code n = in_range 48 57 n"

definition isword_code :: "int \<Rightarrow> bool" where
  "isword_code n =
     (in_range 48 57 n \<or> in_range 65 90 n \<or> n = 95 \<or> in_range 97 122 n \<or>
      n = 170 \<or> n = 178 \<or> n = 179 \<or> n = 181 \<or> n = 185 \<or> n = 186 \<or>
      in_range 188 190 n \<or> in_range 192 214 n \<or> in_range 216 246 n \<or>
      in_range 248 255 n)"

text \<open>Case folding as \<^verbatim>\<open>re.IGNORECASE\<close> applies it to the ASCII letters of the patterns.\<close>

definition lower_code :: "int \<Rightarrow> int" where
  "lower_code n = (if in_range 65 90 n then n + 32 else n)"

definition py_isspace :: "char \<Rightarrow> bool" where
  "py_isspace c = isspace_code (code c)"

text \<open>\<^verbatim>\<open>s.strip()\<close>: whitespace removed at both ends.\<close>

definition py_strip :: "string \<Rightarrow> string" where
  "py_strip s = rev (dropWhile py_isspace (rev (dropWhile py_isspace s)))"

definition newline :: char where
  "newline = CHR 0x0A"

text \<open>\<^verbatim>\<open>"\n".join(xs)\<close>.\<close>

fun join_nl :: "string list \<Rightarrow> string" where
  "join_nl [] = []"
| "join_nl [x] = x"
| "join_nl (x # y # ys) = x @ newline # join_nl (y # ys)"

text \<open>\<^verbatim>\<open>str.lower\<close> on the code points below 256.\<close>

definition py_lower_char :: "char \<Rightarrow> char" where
  "py_lower_char c =
     (let n = code c
      in if in_range 65 90 n \<or> in_range 192 214 n \<or> in_range 216 222 n
         then char_of (n + 32) else c)"

definition py_lower :: "string \<Rightarrow> string" where
  "py_lower s = map py_lower_char s"

text \<open>\<^verbatim>\<open>str(n)\<close> for an integer, as the f-strings of the prompt builders format it.\<close>

function digits_of :: "int \<Rightarrow> string" where
  "digits_of n =
     (if n < 10 then [char_of (48 + n)]
      else digits_of (n div 10) @ [char_of (48 + n mod 10)])"
  by pat_completeness auto
termination
  by (relation "measure nat") auto

definition py_str_int :: "int \<Rightarrow> string" where
  "py_str_int i = (if i < 0 then CHR ''-'' # digits_of (- i) else digits_of i)"

text \<open>
  Sequence operations with Python's conventions: \<^verbatim>\<open>xs[i]\<close> counts a negative index
  from the end and raises \<^verbatim>\<open>IndexError\<close> out of range, \<^verbatim>\<open>xs[:n]\<close> and \<^verbatim>\<open>xs[a:b]\<close>
  clip, \<^verbatim>\<open>min\<close> and \<^verbatim>\<open>max\<close> raise \<^verbatim>\<open>ValueError\<close> on an empty list.
\<close>

datatype error =
    ValueError
  | IndexError
  | TypeError
  | AttributeError
  | BackendError
  | ImportError
  | SystemExit int

definition py_index :: "'a list \<Rightarrow> int \<Rightarrow> error + 'a" where
  "py_index xs i =
     (if 0 \<le> i \<and> i < int (length xs) then Inr (xs ! nat i)
      else if i < 0 \<and> - int (length xs) \<le> i then Inr (xs ! nat (int (length xs) + i))
      else Inl IndexError)"

definition py_take :: "'a list \<Rightarrow> int \<Rightarrow> 'a list" where
  "py_take xs n = (if n < 0 then take (nat (int (length xs) + n)) xs else take (nat n) xs)"

definition py_slice :: "'a list \<Rightarrow> int \<Rightarrow> int \<Rightarrow> 'a list" where
  "py_slice xs a b =
     (let n = int (length xs);
          a' = (if a < 0 then max 0 (n + a) else min a n);
          b' = (if b < 0 then max 0 (n + b) else min b n)
      in take (nat (b' - a')) (drop (nat a') xs))"

definition py_min :: "int list \<Rightarrow> error + int" where
  "py_min xs = (case xs of [] \<Rightarrow> Inl ValueError | x # r \<Rightarrow> Inr (fold min r x))"

definition py_max :: "int list \<Rightarrow> error + int" where
  "py_max xs = (case xs of [] \<Rightarrow> Inl ValueError | x # r \<Rightarrow> Inr (fold max r x))"

section \<open>Regular expressions\<close>

text \<open>
  The patterns of the source use literals, character classes, \<^verbatim>\<open>\b\<close>, \<^verbatim>\<open>^\<close>,
  alternation, \<^verbatim>\<open>?\<close>, \<^verbatim>\<open>*\<close> and \<^verbatim>\<open>+\<close>. Whether \<^verbatim>\<open>re.search\<close> finds a match does not
  depend on the order in which a backtracking matcher tries the alternatives, so the
  matcher below computes, for a position in the subject, every position at which a match
  of the expression can end. A position is the code point before it (none at the start
  of the subject) and the code points from it on. The flag says whether
  \<^verbatim>\<open>re.IGNORECASE\<close> is set; the classes of the patterns here do not depend on case.
\<close>

datatype rx =
    Eps
  | Chr int
  | Set "int \<Rightarrow> bool"
  | WordB
  | Bol
  | Cat rx rx
  | Alt rx rx
  | Star rx

type_synonym pos = "int option \<times> int list"

text \<open>
  Repetition: the positions reached by any number of matches of the body. Only an
  iteration that consumes input reaches a new position, so as many rounds as there are
  code points left reach them all.
\<close>

fun star_iter :: "nat \<Rightarrow> (pos \<Rightarrow> pos list) \<Rightarrow> pos list \<Rightarrow> pos list" where
  "star_iter 0 f ps = ps"
| "star_iter (Suc k) f ps =
     (if ps = [] then []
      else ps @ star_iter k f
             (concat (map (\<lambda>p. filter (\<lambda>q. length (snd q) < length (snd p)) (f p)) ps)))"

text \<open>\<^verbatim>\<open>\b\<close>: exactly one of the two neighbours is a word character.\<close>

definition at_boundary :: "pos \<Rightarrow> bool" where
  "at_boundary p =
     ((case fst p of None \<Rightarrow> False | Some c \<Rightarrow> isword_code c) \<noteq>
      (case snd p of [] \<Rightarrow> False | c # _ \<Rightarrow> isword_code c))"

fun rx_ends :: "bool \<Rightarrow> rx \<Rightarrow> pos \<Rightarrow> pos list" where
  "rx_ends ic Eps p = [p]"
| "rx_ends ic (Chr c) p =
     (case snd p of
        [] \<Rightarrow> []
      | x # xs \<Rightarrow>
          if (if ic then lower_code x = lower_code c else x = c) then [(Some x, xs)] else [])"
| "rx_ends ic (Set P) p =
     (case snd p of [] \<Rightarrow> [] | x # xs \<Rightarrow> if P x then [(Some x, xs)] else [])"
| "rx_ends ic WordB p = (if at_boundary p then [p] else [])"
| "rx_ends ic Bol p = (if fst p = None then [p] else [])"
| "rx_ends ic (Cat a b) p = concat (map (rx_ends ic b) (rx_ends ic a p))"
| "rx_ends ic (Alt a b) p = rx_ends ic a p @ rx_ends ic b p"
| "rx_ends ic (Star a) p = star_iter (length (snd p)) (rx_ends ic a) [p]"

fun search_from :: "bool \<Rightarrow> rx \<Rightarrow> int option \<Rightarrow> int list \<Rightarrow> bool" where
  "search_from ic r prev [] = (rx_ends ic r (prev, []) \<noteq> [])"
| "search_from ic r prev (x # xs) =
     (if rx_ends ic r (prev, x # xs) \<noteq> [] then True else search_from ic r (Some x) xs)"

text \<open>\<^verbatim>\<open>re.search(pattern, s, flags)\<close> as a truth value.\<close>

definition re_search :: "bool \<Rightarrow> rx \<Rightarrow> string \<Rightarrow> bool" where
  "re_search ic r s = search_from ic r None (map code s)"

definition lit :: "string \<Rightarrow> rx" where
  "lit s = foldr (\<lambda>c r. Cat (Chr (code c)) r) s Eps"

definition plus :: "rx \<Rightarrow> rx" where
  "plus r = Cat r (Star r)"

definition opt :: "rx \<Rightarrow> rx" where
  "opt r = Alt r Eps"

definition seq :: "rx list \<Rightarrow> rx" where
  "seq rs = foldr Cat rs Eps"

definition alts :: "rx list \<Rightarrow> rx" where
  "alts rs = foldr Alt (butlast rs) (last rs)"

text \<open>\<^verbatim>\<open>.\<close> (any code point but the newline), \<^verbatim>\<open>\s\<close>, \<^verbatim>\<open>\S\<close>, \<^verbatim>\<open>\d\<close>.\<close>

definition dot :: rx where
  "dot = Set (\<lambda>n. n \<noteq> 10)"

definition space :: rx where
  "space = Set isspace_code"

definition nonspace :: rx where
  "nonspace = Set (\<lambda>n. \<not> isspace_code n)"

definition digit :: rx where
  "digit = Set isdecimal_code"

section \<open>Error detector\<close>

text \<open>
  \<^verbatim>\<open>ANSI_RE = \x1B[@-_][0-?]*[ -/]*[@-~]\<close> and \<^verbatim>\<open>ANSI_RE.sub("", s)\<close>. The three classes
  after the first are pairwise disjoint, so the greedy repetitions never give a code
  point back: a match at an escape character is decided by one pass.
\<close>

definition ansi_match :: "string \<Rightarrow> string option" where
  "ansi_match s =
     (case s of
        [] \<Rightarrow> None
      | d # ds \<Rightarrow>
          if in_range 64 95 (code d)
          then (case dropWhile (\<lambda>c. in_range 32 47 (code c))
                       (dropWhile (\<lambda>c. in_range 48 63 (code c)) ds) of
                  [] \<Rightarrow> None
                | e # es \<Rightarrow> if in_range 64 126 (code e) then Some es else None)
          else None)"

lemma ansi_match_length: "ansi_match s = Some r \<Longrightarrow> length r < length s"
proof -
  have dw: "\<And>P (xs :: string). length (dropWhile P xs) \<le> length xs"
    by (simp add: length_dropWhile_le)
  assume a: "ansi_match s = Some r"
  then obtain d ds where s: "s = d # ds" by (cases s) (auto simp: ansi_match_def)
  let ?t = "dropWhile (\<lambda>c. in_range 32 47 (code c)) (dropWhile (\<lambda>c. in_range 48 63 (code c)) ds)"
  from a s obtain e where t: "?t = e # r"
    by (auto simp: ansi_match_def split: if_splits list.splits)
  have "length ?t \<le> length ds"
    using dw [of _ "dropWhile (\<lambda>c. in_range 48 63 (code c)) ds"] dw [of _ ds]
    by (meson le_trans)
  then show ?thesis using t s by simp
qed

function strip_ansi :: "string \<Rightarrow> string" where
  "strip_ansi [] = []"
| "strip_ansi (c # cs) =
     (if code c = 27
      then (case ansi_match cs of
              Some r \<Rightarrow> strip_ansi r
            | None \<Rightarrow> c # strip_ansi cs)
      else c # strip_ansi cs)"
  by pat_completeness auto
termination
  by (relation "measure length") (auto dest: ansi_match_length)

text \<open>
  \<^verbatim>\<open>read_lines\<close>: the file is given by what \<^verbatim>\<open>read_text(...).splitlines()\<close> returns, or
  nothing when the path does not exist, in which case the function calls \<^verbatim>\<open>sys.exit(1)\<close>.
\<close>

definition read_lines :: "string list option \<Rightarrow> error + string list" where
  "read_lines file =
     (case file of
        None \<Rightarrow> Inl (SystemExit 1)
      | Some raw \<Rightarrow> Inr (map strip_ansi raw))"

definition ERROR_PATTERNS :: "rx list" where
  "ERROR_PATTERNS =
     [seq [WordB, lit ''error:'', plus space, plus dot],
      seq [WordB, lit ''fatal:'', plus space, plus dot],
      seq [WordB, lit ''undefined reference to'', plus space, plus dot],
      seq [WordB, lit ''undefined symbol:'', plus space, plus dot],
      seq [WordB, lit ''ld:'', plus space, lit ''cannot find'', plus space, plus dot],
      seq [WordB, lit ''cannot find'', plus space,
           Alt (seq [lit ''-l'', plus nonspace]) (plus nonspace)],
      seq [WordB, lit ''no rule to make target'', WordB, Star dot],
      seq [WordB, lit ''cmake error'', WordB, opt (lit '':''), Star space, plus dot],
      seq [WordB, lit ''configuration error'', WordB, opt (lit '':''), Star space, plus dot]]"

text \<open>The two expressions of the rule for CI markers; the first is case-sensitive.\<close>

definition FAILED_RX :: rx where
  "FAILED_RX = Alt (seq [WordB, lit ''FAILED'', WordB]) (seq [WordB, lit ''FAILURE'', WordB])"

definition CI_WORD_RX :: rx where
  "CI_WORD_RX = alts [lit ''test'', lit ''target'', lit ''build'', lit ''link'']"

definition match_error :: "string \<Rightarrow> bool" where
  "match_error line =
     (let ls = py_strip line
      in if list_ex (\<lambda>pat. re_search True pat ls) ERROR_PATTERNS then True
         else if re_search False FAILED_RX ls \<and> re_search True CI_WORD_RX ls then True
         else False)"

text \<open>\<^verbatim>\<open>find_error_indices\<close>: \<^verbatim>\<open>enumerate(lines, 1)\<close>, the counter passed along.\<close>

fun find_from :: "int \<Rightarrow> string list \<Rightarrow> int list" where
  "find_from i [] = []"
| "find_from i (line # rest) =
     (if match_error line then i # find_from (i + 1) rest else find_from (i + 1) rest)"

definition find_error_indices :: "string list \<Rightarrow> int list" where
  "find_error_indices log_lines = find_from 1 log_lines"

section \<open>Clusterer\<close>

text \<open>
  \<^verbatim>\<open>cluster_indices\<close> of \<^verbatim>\<open>04_hybrid_approach.py\<close>: a single pass from left to
  right. The loop body compares the next number with \<^verbatim>\<open>clusters[-1][-1]\<close> and either
  appends it to the last cluster or opens a new one. The list of clusters is never empty
  inside the loop and neither is its last member, so both \<^verbatim>\<open>[-1]\<close> reads are in range.
  Line numbers and the window are Python integers.
\<close>

fun cluster_loop :: "int \<Rightarrow> int list list \<Rightarrow> int list \<Rightarrow> int list list" where
  "cluster_loop window clusters [] = clusters"
| "cluster_loop window clusters (n # ns) =
     (if n - last (last clusters) \<le> window
      then cluster_loop window (butlast clusters @ [last clusters @ [n]]) ns
      else cluster_loop window (clusters @ [[n]]) ns)"

definition cluster_indices :: "int list \<Rightarrow> int \<Rightarrow> int list list" where
  "cluster_indices indices window =
     (case indices of
        [] \<Rightarrow> []
      | i # rest \<Rightarrow> cluster_loop window [[i]] rest)"

text \<open>
  For the proofs: the same grouping computed from the left end of the list, and the
  relation "some cluster holds both numbers".
\<close>

fun runs :: "int \<Rightarrow> int list \<Rightarrow> int list list" where
  "runs w [] = []"
| "runs w [x] = [[x]]"
| "runs w (x # y # ys) =
     (if y - x \<le> w
      then (case runs w (y # ys) of [] \<Rightarrow> [[x]] | g # gs \<Rightarrow> (x # g) # gs)
      else [x] # runs w (y # ys))"

definition same_cluster :: "int list list \<Rightarrow> int \<Rightarrow> int \<Rightarrow> bool" where
  "same_cluster clusters a b = list_ex (\<lambda>c. a \<in> set c \<and> b \<in> set c) clusters"

text \<open>
  Between the two numbers lie two neighbouring members of the list that are more than
  the window apart.
\<close>

definition wide_gap_between :: "int list \<Rightarrow> int \<Rightarrow> int \<Rightarrow> int \<Rightarrow> bool" where
  "wide_gap_between idx w a b =
     list_ex (\<lambda>p. a \<le> fst p \<and> snd p \<le> b \<and> snd p - fst p > w) (zip idx (tl idx))"

section \<open>Section extractor\<close>

record log_section =
  line_number :: int
  headline :: string
  lines :: "string list"

text \<open>
  \<^verbatim>\<open>slice_with_context\<close>: after the two clips the range lies inside the list, so the
  comprehension reads no index out of range.
\<close>

definition slice_with_context :: "string list \<Rightarrow> int \<Rightarrow> int \<Rightarrow> string list" where
  "slice_with_context log_lines start stop =
     (let start' = max 1 start - 1;
          end' = min (int (length log_lines)) stop
      in take (nat (end' - start')) (drop (nat start') log_lines))"

text \<open>
  The loop of \<^verbatim>\<open>extract_sections\<close>, with the sections committed so far and the running
  total as arguments. \<^verbatim>\<open>min(c)\<close> raises on an empty cluster and \<^verbatim>\<open>lines[head_line_no - 1]\<close>
  on a line number outside the log; \<^verbatim>\<open>break\<close> returns what has been committed.
\<close>

definition half_chunk :: "string list \<Rightarrow> string list" where
  "half_chunk chunk = py_take chunk (max 1 (int (length chunk) div 2))"

fun extract_loop ::
  "string list \<Rightarrow> int \<Rightarrow> int \<Rightarrow> int list list \<Rightarrow> log_section list \<Rightarrow> int \<Rightarrow>
     error + (log_section list \<times> int)" where
  "extract_loop log_lines ctx max_chars [] sections total_chars = Inr (sections, total_chars)"
| "extract_loop log_lines ctx max_chars (c # cs) sections total_chars =
     (case py_min c of
        Inl e \<Rightarrow> Inl e
      | Inr lo_c \<Rightarrow>
     (case py_max c of
        Inl e \<Rightarrow> Inl e
      | Inr hi_c \<Rightarrow>
     (let chunk = slice_with_context log_lines (lo_c - ctx) (hi_c + ctx);
          chunk_text = py_strip (join_nl chunk);
          head_line_no = lo_c
      in case py_index log_lines (head_line_no - 1) of
           Inl e \<Rightarrow> Inl e
         | Inr head_line \<Rightarrow>
             (let sec = \<lparr>line_number = head_line_no, headline = py_strip head_line,
                        lines = chunk\<rparr>
              in if total_chars + int (length chunk_text) > max_chars
                 then (let truncated = join_nl (half_chunk chunk)
                       in if total_chars + int (length truncated) > max_chars
                          then Inr (sections, total_chars)
                          else extract_loop log_lines ctx max_chars cs
                                 (sections @ [sec\<lparr>lines := half_chunk chunk\<rparr>])
                                 (total_chars + int (length truncated)))
                 else extract_loop log_lines ctx max_chars cs (sections @ [sec])
                        (total_chars + int (length chunk_text))))))"

definition extract_sections ::
  "string list \<Rightarrow> int list list \<Rightarrow> int \<Rightarrow> int \<Rightarrow> int \<Rightarrow> error + (log_section list \<times> int)" where
  "extract_sections log_lines clusters ctx max_sections max_chars =
     extract_loop log_lines ctx max_chars (py_take clusters max_sections) [] 0"

text \<open>
  The text of an emitted section: its context lines joined, as \<^verbatim>\<open>categorise_sections\<close>
  builds it (\<^verbatim>\<open>"\n".join(s["lines"])\<close>) and as \<^verbatim>\<open>make_prompt\<close> renders it line by line.
\<close>

definition section_body :: "log_section \<Rightarrow> string" where
  "section_body s = join_nl (lines s)"

definition emitted_chars :: "log_section list \<Rightarrow> int" where
  "emitted_chars sections = sum_list (map (\<lambda>s. int (length (section_body s))) sections)"

section \<open>Categorizer\<close>

definition CATEGORY_RULES :: "(string \<times> rx) list" where
  "CATEGORY_RULES =
     [(''linker_missing'',
         Alt (seq [WordB, opt (lit ''ld: ''), lit ''cannot find'', WordB])
             (seq [WordB, lit ''-l'',
                   plus (Set (\<lambda>n. in_range 65 90 n \<or> in_range 97 122 n \<or> in_range 48 57 n \<or>
                                    n = 95 \<or> n = 45)),
                   WordB])),
      (''linker_undefined'',
         Alt (seq [WordB, lit ''undefined reference'', WordB])
             (seq [WordB, lit ''undefined symbol'', WordB])),
      (''cmake_config'',
         alts [seq [WordB, lit ''cmake error'', WordB],
               seq [WordB, lit ''no rule to make target'', WordB],
               seq [WordB, lit ''configuration error'', WordB]]),
      (''compilation'',
         Alt (seq [WordB, lit ''error:'', WordB])
             (seq [Bol, Star space, plus digit, Star space, lit ''error'', opt (lit ''s''),
                   lit '' generated'', WordB]))]"

fun first_category :: "(string \<times> rx) list \<Rightarrow> string \<Rightarrow> string" where
  "first_category [] text = ''other''"
| "first_category ((name, r) # rules) text =
     (if re_search False r text then name else first_category rules text)"

definition categorise_section :: "string \<Rightarrow> string" where
  "categorise_section text = first_category CATEGORY_RULES text"

text \<open>
  \<^verbatim>\<open>categorise_sections\<close>: the \<^verbatim>\<open>defaultdict(list)\<close> is an association list in the order
  in which the categories were first met.
\<close>

fun bucket_append :: "string \<Rightarrow> log_section \<Rightarrow> (string \<times> log_section list) list \<Rightarrow>
    (string \<times> log_section list) list" where
  "bucket_append k s [] = [(k, [s])]"
| "bucket_append k s ((k', v) # rest) =
     (if k' = k then (k', v @ [s]) # rest else (k', v) # bucket_append k s rest)"

fun categorise_loop :: "log_section list \<Rightarrow> (string \<times> log_section list) list \<Rightarrow>
    (string \<times> log_section list) list" where
  "categorise_loop [] buckets = buckets"
| "categorise_loop (s # rest) buckets =
     categorise_loop rest (bucket_append (categorise_section (join_nl (lines s))) s buckets)"

definition categorise_sections :: "log_section list \<Rightarrow> (string \<times> log_section list) list" where
  "categorise_sections sections = categorise_loop sections []"

section \<open>Prompt builder\<close>

text \<open>
  \<^verbatim>\<open>extract_build_info\<close> searches each of the first 40 lines for
  \<^verbatim>\<open>\bKEY:\s*(.+)\<close> with \<^verbatim>\<open>re.IGNORECASE\<close> and stores \<^verbatim>\<open>m.group(1).strip()\<close>.
  \<open>capture_tail\<close> is what follows the key: when a code point other than whitespace
  follows the whitespace, the group is the rest up to a newline; when only whitespace
  follows, the matcher gives one whitespace character back to the group, which strips to
  the empty string; when nothing but newlines follows, there is no match at this place
  and the search goes on to the right.
\<close>

definition capture_tail :: "string \<Rightarrow> string option" where
  "capture_tail t =
     (let w = takeWhile py_isspace t; r = dropWhile py_isspace t
      in if r \<noteq> [] then Some (py_strip (takeWhile (\<lambda>c. c \<noteq> newline) r))
         else if list_ex (\<lambda>c. c \<noteq> newline) w then Some []
         else None)"

fun ci_prefix :: "string \<Rightarrow> string \<Rightarrow> string option" where
  "ci_prefix [] s = Some s"
| "ci_prefix (k # ks) [] = None"
| "ci_prefix (k # ks) (c # cs) =
     (if lower_code (code c) = lower_code (code k) then ci_prefix ks cs else None)"

definition key_here :: "string \<Rightarrow> char option \<Rightarrow> string \<Rightarrow> string option" where
  "key_here key prev s =
     (if at_boundary (map_option code prev, map code (take 1 s))
      then (case ci_prefix key s of Some t \<Rightarrow> capture_tail t | None \<Rightarrow> None)
      else None)"

fun search_key :: "string \<Rightarrow> char option \<Rightarrow> string \<Rightarrow> string option" where
  "search_key key prev [] = key_here key prev []"
| "search_key key prev (c # cs) =
     (case key_here key prev (c # cs) of
        Some g \<Rightarrow> Some g
      | None \<Rightarrow> search_key key (Some c) cs)"

definition BUILD_INFO_PAIRS :: "(string \<times> string) list" where
  "BUILD_INFO_PAIRS =
     [(''component'', ''component:''),
      (''build_id'', ''build id:''),
      (''compiler'', ''compiler:''),
      (''branch'', ''branch:''),
      (''runner'', ''runner:'')]"

fun info_line :: "string \<Rightarrow> (string \<times> string) list \<Rightarrow> (string \<times> string) list \<Rightarrow>
    (string \<times> string) list" where
  "info_line line [] info = info"
| "info_line line ((k, key) # pairs) info =
     (case search_key key None line of
        Some g \<Rightarrow>
          if map_of info k = None then info_line line pairs (info @ [(k, g)])
          else info_line line pairs info
      | None \<Rightarrow> info_line line pairs info)"

fun info_loop :: "string list \<Rightarrow> (string \<times> string) list \<Rightarrow> (string \<times> string) list" where
  "info_loop [] info = info"
| "info_loop (line # rest) info = info_loop rest (info_line line BUILD_INFO_PAIRS info)"

definition extract_build_info :: "string list \<Rightarrow> (string \<times> string) list" where
  "extract_build_info log_lines = info_loop (take 40 log_lines) []"

text \<open>
  \<^verbatim>\<open>make_prompt\<close>. The fixed header holds two characters above code point 255 (a
  typographic apostrophe and a bullet); they are written as their UTF-8 bytes. Nothing in
  the program looks inside the prompt.
\<close>

definition PROMPT_HEADER :: "string list" where
  \<open>PROMPT_HEADER =
     [''ROLE: You are assisting the RDK CMF team with CI build failures.'',
      '''',
      ''TASK: Analyse the provided error sections (already filtered deterministically).'',
      '''',
      ''OUTPUT (valid JSON ONLY):'',
      ''{'',
      ''  "root_causes": ['',
      ''    { "cause": "string",'',
      ''      "evidence": [ { "line": number, "snippet": "string" } ],'',
      ''      "confidence": "high|medium|low",'',
      ''      "next_action": "string" }'',
      ''  ],'',
      ''  "summary": ["'' @ [CHR 0xE2, CHR 0x80, CHR 0xA2] @ '' bullet 1", "'' @
        [CHR 0xE2, CHR 0x80, CHR 0xA2] @ '' bullet 2", "'' @
        [CHR 0xE2, CHR 0x80, CHR 0xA2] @ '' bullet 3"]'',
      ''}'',
      '''',
      ''REQUIREMENTS:'',
      ''- Cite at least one exact line number + snippet per root cause.'',
      ''- Prefer concrete commands/flags over generic advice.'',
      ''- If uncertain, set confidence to low and state what'' @
        [CHR 0xE2, CHR 0x80, CHR 0x99] @ ''s missing.'',
      ''- Do not invent symbols/functions/libraries.'',
      '''',
      ''BUILD INFO:'']\<close>

fun prompt_body :: "int \<Rightarrow> log_section list \<Rightarrow> string list" where
  "prompt_body i [] = []"
| "prompt_body i (sec # rest) =
     [newline # ''--- Error Section '' @ py_str_int i @ '' ---'',
      ''Line '' @ py_str_int (line_number sec) @ '': '' @ headline sec,
      newline # ''Context:''] @
     map (\<lambda>t. ''  '' @ t) (lines sec) @
     prompt_body (i + 1) rest"

definition make_prompt :: "log_section list \<Rightarrow> (string \<times> string) list \<Rightarrow> string" where
  "make_prompt sections build_info =
     (let header = PROMPT_HEADER @
                   map (\<lambda>(k, v). ''- '' @ k @ '': '' @ v) build_info @
                   ['''', ''ERROR SECTIONS:'', replicate 60 CHR ''=''];
          body_lines = prompt_body 1 sections;
          footer = [newline # replicate 60 CHR ''='',
                    ''IMPORTANT: Respond with VALID JSON ONLY. No additional commentary.'']
      in join_nl (header @ body_lines @ footer))"

section \<open>The external collaborator\<close>

text \<open>
  The network clients are outside the program. Each is given as a function from the
  prompt and the model name to what the exchange produces: an exception, or the text
  (for the chat completion, the message content, which may be absent).
  \<^verbatim>\<open>call_ollama\<close> lets an exception through, and \<^verbatim>\<open>call_anthropic\<close> catches every
  exception and returns the empty string. \<^verbatim>\<open>call_openai\<close> imports the package before its
  \<^verbatim>\<open>try\<close> block: \<open>openai_module\<close> is \<open>Inr True\<close> when
  \<^verbatim>\<open>from openai import OpenAI\<close> succeeds, \<open>Inl e\<close> when the handler of that import
  raises \<open>e\<close> itself (\<^verbatim>\<open>import openai\<close> fails, or \<^verbatim>\<open>client.OpenAI()\<close> does), which nothing
  catches, and \<open>Inr False\<close> when the handler completes: then \<^verbatim>\<open>OpenAI\<close> is unbound,
  \<^verbatim>\<open>OpenAI()\<close> raises inside the \<^verbatim>\<open>try\<close> block, and the empty string is returned.
\<close>

record clients =
  ollama_generate :: "string \<Rightarrow> string \<Rightarrow> error + string"
  openai_module :: "error + bool"
  openai_chat :: "string \<Rightarrow> string \<Rightarrow> error + string option"
  anthropic_messages :: "string \<Rightarrow> string \<Rightarrow> error + string"

definition call_ollama :: "clients \<Rightarrow> string \<Rightarrow> string \<Rightarrow> error + string" where
  "call_ollama cl prompt model = ollama_generate cl prompt model"

definition call_openai :: "clients \<Rightarrow> string \<Rightarrow> string \<Rightarrow> error + string" where
  "call_openai cl prompt model =
     (case openai_module cl of
        Inl e \<Rightarrow> Inl e
      | Inr False \<Rightarrow> Inr []
      | Inr True \<Rightarrow>
          (case openai_chat cl prompt model of
             Inl e \<Rightarrow> Inr []
           | Inr None \<Rightarrow> Inr []
           | Inr (Some content) \<Rightarrow> Inr content))"

definition call_anthropic :: "clients \<Rightarrow> string \<Rightarrow> string \<Rightarrow> string" where
  "call_anthropic cl prompt model =
     (case anthropic_messages cl prompt model of
        Inl e \<Rightarrow> []
      | Inr text \<Rightarrow> text)"

definition call_backend :: "clients \<Rightarrow> string \<Rightarrow> string \<Rightarrow> string \<Rightarrow> error + string" where
  "call_backend cl prompt backend model =
     (if backend = ''ollama'' then call_ollama cl prompt model
      else if backend = ''openai'' then call_openai cl prompt model
      else if backend = ''anthropic'' then Inr (call_anthropic cl prompt model)
      else Inr [])"

record args =
  arg_backend :: "string option"
  arg_model :: "string option"
  arg_context :: int
  arg_cluster_window :: int
  arg_max_sections :: int
  arg_max_chars :: int

record env =
  HYBRID_BACKEND :: "string option"
  HYBRID_MODEL :: "string option"

text \<open>\<^verbatim>\<open>x or y\<close> on an optional string: \<^verbatim>\<open>None\<close> and the empty string are false.\<close>

definition str_or :: "string option \<Rightarrow> string \<Rightarrow> string" where
  "str_or x y = (case x of None \<Rightarrow> y | Some v \<Rightarrow> if v = [] then y else v)"

definition getenv :: "string option \<Rightarrow> string \<Rightarrow> string" where
  "getenv v dflt = (case v of None \<Rightarrow> dflt | Some x \<Rightarrow> x)"

definition choose_backend_env_cli :: "args \<Rightarrow> env \<Rightarrow> string \<times> string" where
  "choose_backend_env_cli a e =
     (let backend = str_or (arg_backend a) (py_lower (getenv (HYBRID_BACKEND e) ''ollama''));
          model = str_or (arg_model a)
                    (getenv (HYBRID_MODEL e)
                       (if backend = ''ollama'' then ''codellama:7b'' else ''gpt-4o''))
      in (backend, model))"

section \<open>Response validator\<close>

text \<open>
  What \<^verbatim>\<open>json.loads\<close> returns: \<^verbatim>\<open>None\<close>, a truth value, an integer, a float (carried
  as its literal; nothing computes with it), a string, a list, or a dictionary, here the
  list of its items in insertion order.
\<close>

datatype json =
    JNull
  | JBool bool
  | JInt int
  | JFloat string
  | JStr string
  | JArr "json list"
  | JObj "(string \<times> json) list"

text \<open>\<^verbatim>\<open>extract_json_block\<close>: the scan with the stack of expected closers, top first.\<close>

fun block_scan :: "char list \<Rightarrow> string \<Rightarrow> nat \<Rightarrow> nat option" where
  "block_scan stack [] n = None"
| "block_scan stack (ch # rest) n =
     (if ch = CHR ''{'' \<or> ch = CHR ''[''
      then block_scan ((if ch = CHR ''{'' then CHR ''}'' else CHR '']'') # stack) rest (n + 1)
      else if ch = CHR ''}'' \<or> ch = CHR '']''
      then (case stack of
              [] \<Rightarrow> block_scan stack rest (n + 1)
            | expected # below \<Rightarrow>
                if ch \<noteq> expected then block_scan stack rest (n + 1)
                else if below = [] then Some (n + 1)
                else block_scan below rest (n + 1))
      else block_scan stack rest (n + 1))"

definition extract_json_block :: "string \<Rightarrow> string" where
  "extract_json_block s =
     (let from_brace = dropWhile (\<lambda>c. c \<noteq> CHR ''{'') s;
          from_start = (if from_brace \<noteq> [] then from_brace
                        else dropWhile (\<lambda>c. c \<noteq> CHR ''['') s)
      in if from_start = [] then []
         else (case block_scan [] from_start 0 of
                 None \<Rightarrow> []
               | Some n \<Rightarrow> take n from_start))"

datatype pytype = TList

definition isinstance :: "json \<Rightarrow> pytype \<Rightarrow> bool" where
  "isinstance v t = (case t of TList \<Rightarrow> (case v of JArr _ \<Rightarrow> True | _ \<Rightarrow> False))"

definition SCHEMA :: "(string \<times> pytype) list" where
  "SCHEMA = [(''root_causes'', TList), (''summary'', TList)]"

definition has_key :: "(string \<times> json) list \<Rightarrow> string \<Rightarrow> bool" where
  "has_key d k = (map_of d k \<noteq> None)"

text \<open>\<^verbatim>\<open>d.get(k, [])\<close> read as a sequence to iterate over.\<close>

definition get_list :: "(string \<times> json) list \<Rightarrow> string \<Rightarrow> json list" where
  "get_list d k = (case map_of d k of Some (JArr xs) \<Rightarrow> xs | _ \<Rightarrow> [])"

definition valid_root_cause :: "json \<Rightarrow> bool" where
  "valid_root_cause rc =
     (case rc of
        JObj r \<Rightarrow>
          if \<not> has_key r ''cause'' \<or> \<not> has_key r ''confidence'' \<or> \<not> has_key r ''next_action''
          then False
          else (case map_of r ''evidence'' of
                  Some (JArr ev) \<Rightarrow> ev \<noteq> []
                | _ \<Rightarrow> False)
      | _ \<Rightarrow> False)"

definition valid_schema :: "json \<Rightarrow> bool" where
  "valid_schema obj =
     (case obj of
        JObj d \<Rightarrow>
          if list_ex (\<lambda>(k, t). \<not> has_key d k \<or> \<not> isinstance (the (map_of d k)) t) SCHEMA
          then False
          else list_all valid_root_cause (get_list d ''root_causes'')
      | _ \<Rightarrow> False)"

text \<open>
  \<^verbatim>\<open>parse_llm_response\<close>. \<^verbatim>\<open>json.loads\<close> belongs to the standard library and is a
  parameter: it returns the parsed value or the message of the \<^verbatim>\<open>JSONDecodeError\<close>.
\<close>

definition startswith :: "string \<Rightarrow> char \<Rightarrow> bool" where
  "startswith s c = (case s of [] \<Rightarrow> False | x # _ \<Rightarrow> x = c)"

definition parse_llm_response :: "(string \<Rightarrow> string + json) \<Rightarrow> string \<Rightarrow> json \<times> string" where
  "parse_llm_response loads raw =
     (if raw = [] then (JObj [], ''empty response'')
      else (let stripped = py_strip raw;
                candidate = (if \<not> (startswith stripped CHR ''{'' \<or> startswith stripped CHR ''['')
                             then extract_json_block stripped else stripped)
            in if candidate = [] then (JObj [], ''no json block found'')
               else (case loads candidate of
                       Inl msg \<Rightarrow> (JObj [], ''json decode error: '' @ msg)
                     | Inr obj \<Rightarrow>
                         if \<not> valid_schema obj then (JObj [], ''schema validation failed'')
                         else (obj, ''''))))"

text \<open>
  The acceptance condition in logical form, once as the code checks it (the keys are
  present, whatever their values) and once as the specification words it (the three
  fields are not null).
\<close>

definition has_field :: "(string \<times> json) list \<Rightarrow> string \<Rightarrow> bool" where
  "has_field r k = (\<exists>v. map_of r k = Some v)"

definition non_null_field :: "(string \<times> json) list \<Rightarrow> string \<Rightarrow> bool" where
  "non_null_field r k = (\<exists>v. map_of r k = Some v \<and> v \<noteq> JNull)"

definition accepted_root_cause :: "json \<Rightarrow> bool" where
  "accepted_root_cause rc =
     (\<exists>r ev. rc = JObj r \<and> has_field r ''cause'' \<and> has_field r ''confidence'' \<and>
             has_field r ''next_action'' \<and> map_of r ''evidence'' = Some (JArr ev) \<and> ev \<noteq> [])"

definition accepted_response :: "json \<Rightarrow> bool" where
  "accepted_response obj =
     (\<exists>d rcs sm. obj = JObj d \<and> map_of d ''root_causes'' = Some (JArr rcs) \<and>
                map_of d ''summary'' = Some (JArr sm) \<and> (\<forall>rc \<in> set rcs. accepted_root_cause rc))"

definition strict_root_cause :: "json \<Rightarrow> bool" where
  "strict_root_cause rc =
     (\<exists>r ev. rc = JObj r \<and> non_null_field r ''cause'' \<and> non_null_field r ''confidence'' \<and>
             non_null_field r ''next_action'' \<and> map_of r ''evidence'' = Some (JArr ev) \<and>
             ev \<noteq> [])"

definition strict_response :: "json \<Rightarrow> bool" where
  "strict_response obj =
     (\<exists>d rcs sm. obj = JObj d \<and> map_of d ''root_causes'' = Some (JArr rcs) \<and>
                map_of d ''summary'' = Some (JArr sm) \<and> (\<forall>rc \<in> set rcs. strict_root_cause rc))"

text \<open>
  Concrete responses for the examples below. \<open>loads_at text v\<close> stands for
  \<^verbatim>\<open>json.loads\<close> where only its value at one text matters.
\<close>

definition loads_at :: "string \<Rightarrow> json \<Rightarrow> string \<Rightarrow> string + json" where
  "loads_at text v s = (if s = text then Inr v else Inl ''Expecting value'')"

definition null_fields_text :: string where
  \<open>null_fields_text =
     ''{"root_causes":[{"cause":null,"confidence":null,"next_action":null,"evidence":[1]}],"summary":[]}''\<close>

definition null_fields_response :: json where
  "null_fields_response =
     JObj [(''root_causes'',
            JArr [JObj [(''cause'', JNull), (''confidence'', JNull), (''next_action'', JNull),
                        (''evidence'', JArr [JInt 1])]]),
           (''summary'', JArr [])]"

definition full_response :: json where
  "full_response =
     JObj [(''root_causes'',
            JArr [JObj [(''cause'', JStr ''Missing library foo''),
                        (''evidence'',
                         JArr [JObj [(''line'', JInt 12),
                                     (''snippet'', JStr ''ld: cannot find -lfoo'')]]),
                        (''confidence'', JStr ''high''),
                        (''next_action'', JStr ''Install libfoo-dev'')]]),
           (''summary'', JArr [JStr ''Link step failed'', JStr ''libfoo is missing'',
                               JStr ''Install it and rebuild''])]"

section \<open>Fallback synthesizer\<close>

text \<open>
  \<^verbatim>\<open>Counter(heads).most_common(3)\<close>: the counts in the order in which the headlines
  first occur, sorted by falling count; \<^verbatim>\<open>heapq.nlargest\<close> keeps that order among equal
  counts.
\<close>

definition counter :: "string list \<Rightarrow> (string \<times> int) list" where
  "counter xs = fold (\<lambda>x c. AList.map_default x 1 (\<lambda>n. n + 1) c) xs []"

definition most_common :: "nat \<Rightarrow> (string \<times> int) list \<Rightarrow> (string \<times> int) list" where
  "most_common n c = take n (sort_key (\<lambda>kv. - snd kv) c)"

definition FALLBACK_RX :: rx where
  "FALLBACK_RX =
     alts [seq [WordB, lit ''error'', WordB], lit ''undefined'', lit ''cannot find'',
           lit ''cmake'']"

definition evidence_entry :: "int \<Rightarrow> string \<Rightarrow> json" where
  "evidence_entry n snippet = JObj [(''line'', JInt n), (''snippet'', JStr snippet)]"

text \<open>The loop over \<^verbatim>\<open>enumerate(sec["lines"], start=0)\<close> with its \<^verbatim>\<open>break\<close>.\<close>

fun first_evidence :: "int \<Rightarrow> int \<Rightarrow> string list \<Rightarrow> json list" where
  "first_evidence ln offset [] = []"
| "first_evidence ln offset (t # rest) =
     (if re_search True FALLBACK_RX t
      then [evidence_entry (ln + offset) (take 200 (py_strip t))]
      else first_evidence ln (offset + 1) rest)"

definition fallback_cause :: "log_section list \<Rightarrow> string \<Rightarrow> json" where
  "fallback_cause sections cause =
     (let sec = find (\<lambda>s. headline s = cause) sections;
          ev = (case sec of
                  None \<Rightarrow> []
                | Some s \<Rightarrow> first_evidence (line_number s) 0 (lines s))
      in JObj [(''cause'', JStr (take 120 cause)),
               (''evidence'',
                  JArr (case sec of
                          None \<Rightarrow> []
                        | Some s \<Rightarrow>
                            if ev \<noteq> [] then ev
                            else [evidence_entry (line_number s) (take 200 (headline s))])),
               (''confidence'', JStr ''low''),
               (''next_action'',
                  JStr ''Re-run with stricter prompt or inspect deterministic section.'')])"

definition FALLBACK_SUMMARY :: "string list" where
  "FALLBACK_SUMMARY =
     [''AI output invalid; using deterministic fallback.'',
      ''Inspect sections.json for evidence.'',
      ''Re-run with a JSON-enforcing model or smaller prompt.'']"

definition fallback_result :: "log_section list \<Rightarrow> json" where
  "fallback_result sections =
     (let heads = filter (\<lambda>h. h \<noteq> []) (map headline sections);
          freq = most_common 3 (counter heads);
          top_causes = map (\<lambda>kv. fallback_cause sections (fst kv)) freq
      in JObj [(''root_causes'', JArr top_causes),
               (''summary'', JArr (map JStr FALLBACK_SUMMARY))])"

definition EMPTY_RESPONSE_SUMMARY :: "string list" where
  "EMPTY_RESPONSE_SUMMARY =
     [''No AI summary available.'', ''See deterministic sections.'', ''Check CI artefacts.'']"

definition empty_response_result :: json where
  "empty_response_result =
     JObj [(''root_causes'', JArr []), (''summary'', JArr (map JStr EMPTY_RESPONSE_SUMMARY))]"

section \<open>The run\<close>

text \<open>
  The report printed after the collaborator has answered reads, for each of the first
  three root causes, \<^verbatim>\<open>ev[0].get(...)\<close> and slices the snippet: an evidence entry that
  is not a dictionary raises \<^verbatim>\<open>AttributeError\<close>, a snippet that is neither a string nor
  a list raises on \<^verbatim>\<open>[:160]\<close> (modelled as \<^verbatim>\<open>TypeError\<close>). The function is applied to
  objects that passed \<^verbatim>\<open>valid_schema\<close> or came from the fallback.
\<close>

definition report_root_cause :: "json \<Rightarrow> error option" where
  "report_root_cause rc =
     (case rc of
        JObj r \<Rightarrow>
          (case map_of r ''evidence'' of
             Some (JArr (e0 # _)) \<Rightarrow>
               (case e0 of
                  JObj e \<Rightarrow>
                    (case map_of e ''snippet'' of
                       None \<Rightarrow> None
                     | Some (JStr _) \<Rightarrow> None
                     | Some (JArr _) \<Rightarrow> None
                     | Some _ \<Rightarrow> Some TypeError)
                | _ \<Rightarrow> Some AttributeError)
           | Some (JArr []) \<Rightarrow> None
           | None \<Rightarrow> None
           | Some _ \<Rightarrow> Some TypeError)
      | _ \<Rightarrow> Some AttributeError)"

fun first_error :: "error option list \<Rightarrow> error option" where
  "first_error [] = None"
| "first_error (None # rest) = first_error rest"
| "first_error (Some e # rest) = Some e"

definition report :: "json \<Rightarrow> error option" where
  "report obj =
     (case obj of
        JObj d \<Rightarrow> first_error (map report_root_cause (take 3 (get_list d ''root_causes'')))
      | _ \<Rightarrow> Some AttributeError)"

record artefacts =
  hybrid_result :: json
  sections_json :: "log_section list"
  categories_json :: "(string \<times> nat) list"

record outcome =
  status :: int
  written :: "artefacts option"
  backend_calls :: "(string \<times> string \<times> string) list"

text \<open>
  \<^verbatim>\<open>run\<close>, stage by stage. An uncaught exception, \<^verbatim>\<open>SystemExit\<close> included, is the
  left summand. \<open>backend_calls\<close> lists the calls of \<^verbatim>\<open>call_backend\<close> made on the way
  (prompt, backend, model). Printing and the figures of \<^verbatim>\<open>meta.json\<close> are left out, and
  so are the errors that the file system can raise while the artefacts are written.
\<close>

definition run_sections :: "args \<Rightarrow> string list \<Rightarrow> error + (log_section list \<times> int)" where
  "run_sections a log_lines =
     extract_sections log_lines
       (cluster_indices (find_error_indices log_lines) (arg_cluster_window a))
       (arg_context a) (arg_max_sections a) (arg_max_chars a)"

definition run_prompt :: "string list \<Rightarrow> log_section list \<Rightarrow> string" where
  "run_prompt log_lines sections = make_prompt sections (extract_build_info log_lines)"

definition run_reply ::
  "args \<Rightarrow> env \<Rightarrow> clients \<Rightarrow> string list \<Rightarrow> log_section list \<Rightarrow> error + string" where
  "run_reply a e cl log_lines sections =
     call_backend cl (run_prompt log_lines sections)
       (fst (choose_backend_env_cli a e)) (snd (choose_backend_env_cli a e))"

text \<open>The object presented after a non-empty reply: the parsed one, or the fallback.\<close>

definition final_object :: "(string \<Rightarrow> string + json) \<Rightarrow> log_section list \<Rightarrow> string \<Rightarrow> json" where
  "final_object loads sections raw =
     (let (parsed, err) = parse_llm_response loads raw
      in if err \<noteq> [] then fallback_result sections else parsed)"

definition category_counts :: "log_section list \<Rightarrow> (string \<times> nat) list" where
  "category_counts sections =
     map (\<lambda>(k, v). (k, length v)) (filter (\<lambda>(k, v). v \<noteq> []) (categorise_sections sections))"

definition run ::
  "args \<Rightarrow> env \<Rightarrow> clients \<Rightarrow> (string \<Rightarrow> string + json) \<Rightarrow> string list option \<Rightarrow>
     error + outcome" where
  "run a e cl loads file =
     (case read_lines file of
        Inl ex \<Rightarrow> Inl ex
      | Inr log_lines \<Rightarrow>
     (case run_sections a log_lines of
        Inl ex \<Rightarrow> Inl ex
      | Inr (sections, sent_chars) \<Rightarrow>
          if sections = [] then Inr \<lparr>status = 0, written = None, backend_calls = []\<rparr>
          else
            (let counts = category_counts sections;
                 calls = [(run_prompt log_lines sections,
                           fst (choose_backend_env_cli a e), snd (choose_backend_env_cli a e))]
             in case run_reply a e cl log_lines sections of
                  Inl ex \<Rightarrow> Inl ex
                | Inr raw \<Rightarrow>
                    if raw = []
                    then Inr \<lparr>status = 1,
                              written = Some \<lparr>hybrid_result = empty_response_result,
                                              sections_json = sections,
                                              categories_json = counts\<rparr>,
                              backend_calls = calls\<rparr>
                    else
                      (let obj = final_object loads sections raw
                       in case report obj of
                            Some ex \<Rightarrow> Inl ex
                          | None \<Rightarrow>
                              Inr \<lparr>status = 0,
                                   written = Some \<lparr>hybrid_result = obj,
                                                   sections_json = sections,
                                                   categories_json = counts\<rparr>,
                                   backend_calls = calls\<rparr>))))"


section \<open>The chat front end: \<^verbatim>\<open>build_analysis.py\<close>\<close>

text \<open>
  The second pipeline applies \<^verbatim>\<open>ERROR_PATTERNS\<close> (the same nine expressions, without the
  rule for CI markers) to the lines with the escape sequences removed but not stripped,
  lower-cases the error line before it is categorised, and returns a dictionary.
\<close>

record build_error =
  be_line_number :: int
  be_error_line :: string
  be_context :: "string list"

fun find_errors_from :: "string list \<Rightarrow> int \<Rightarrow> int \<Rightarrow> string list \<Rightarrow> build_error list" where
  "find_errors_from all_lines context_lines i [] = []"
| "find_errors_from all_lines context_lines i (line # rest) =
     (let line_clean = strip_ansi line
      in if list_ex (\<lambda>pat. re_search True pat line_clean) ERROR_PATTERNS
         then (let start = max 0 (i - context_lines);
                   stop = min (int (length all_lines)) (i + context_lines + 1);
                   ctx = py_slice all_lines start stop
               in \<lparr>be_line_number = i + 1, be_error_line = py_strip line_clean,
                   be_context = map (\<lambda>l. py_strip (strip_ansi l)) ctx\<rparr>
                  # find_errors_from all_lines context_lines (i + 1) rest)
         else find_errors_from all_lines context_lines (i + 1) rest)"

definition find_error_lines_with_context :: "string list \<Rightarrow> int \<Rightarrow> build_error list" where
  "find_error_lines_with_context all_lines context_lines =
     find_errors_from all_lines context_lines 0 all_lines"

fun error_bucket_append :: "string \<Rightarrow> build_error \<Rightarrow> (string \<times> build_error list) list \<Rightarrow>
    (string \<times> build_error list) list" where
  "error_bucket_append k x [] = [(k, [x])]"
| "error_bucket_append k x ((k', v) # rest) =
     (if k' = k then (k', v @ [x]) # rest else (k', v) # error_bucket_append k x rest)"

fun categorize_loop :: "build_error list \<Rightarrow> (string \<times> build_error list) list \<Rightarrow>
    (string \<times> build_error list) list" where
  "categorize_loop [] categories = categories"
| "categorize_loop (x # rest) categories =
     categorize_loop rest
       (error_bucket_append (first_category CATEGORY_RULES (py_lower (be_error_line x))) x
          categories)"

definition categorize_errors :: "build_error list \<Rightarrow> (string \<times> build_error list) list" where
  "categorize_errors errors = categorize_loop errors []"

definition dict_get :: "(string \<times> string) list \<Rightarrow> string \<Rightarrow> string \<Rightarrow> string" where
  "dict_get d k dflt = (case map_of d k of None \<Rightarrow> dflt | Some v \<Rightarrow> v)"

text \<open>\<^verbatim>\<open>create_focused_prompt\<close>; the values of \<^verbatim>\<open>build_info\<close> are taken to be strings.\<close>

definition create_focused_prompt ::
  "build_error list \<Rightarrow> (string \<times> string) list option \<Rightarrow> string" where
  \<open>create_focused_prompt errors build_info =
     (let build_section =
            (case build_info of
               None \<Rightarrow> []
             | Some d \<Rightarrow>
                 if d = [] then []
                 else ''Build: '' @ dict_get d ''component'' ''unknown'' @ '' ('' @
                      dict_get d ''build_id'' ''unknown'' @ '')'' @ [newline, newline]);
          error_sections =
            map (\<lambda>x. ''Line '' @ py_str_int (be_line_number x) @ '':'' @ [newline] @
                      join_nl (be_context x) @ [newline])
              (take 20 errors)
      in ''Analyze this build log failure. Focus on the error sections below.'' @
         [newline, newline] @ build_section @ ''Error sections:'' @ [newline] @
         join_nl error_sections @ [newline, newline] @
         join_nl
           [''Provide a JSON response with:'',
            ''1. "root_causes": Array of top 3 root causes, each with:'',
            ''   - "cause": Brief description'',
            ''   - "evidence": Line number and snippet'',
            ''   - "confidence": "high" | "medium" | "low"'',
            ''   - "next_action": What to do to fix it'',
            ''2. "summary": Array of 3 bullet points summarizing the failure'',
            '''',
            ''Be concise and actionable.''])\<close>

text \<open>
  \<^verbatim>\<open>re.search(r"\{.*\}", content, re.DOTALL)\<close>: from the first opening brace to the last
  closing brace after it.
\<close>

definition brace_span :: "string \<Rightarrow> string option" where
  "brace_span content =
     (let from_brace = dropWhile (\<lambda>c. c \<noteq> CHR ''{'') content;
          span = rev (dropWhile (\<lambda>c. c \<noteq> CHR ''}'') (rev from_brace))
      in if span = [] then None else Some span)"

definition ANALYSIS_UNAVAILABLE :: json where
  "ANALYSIS_UNAVAILABLE =
     JObj [(''root_causes'', JArr []), (''summary'', JArr [JStr ''Analysis unavailable''])]"

text \<open>
  \<^verbatim>\<open>analyze_with_llm\<close>: the chat completion is given by the contents of the choices it
  returns, or the exception it raises; whatever is raised inside the \<^verbatim>\<open>try\<close>, a
  \<^verbatim>\<open>JSONDecodeError\<close> included, ends in the fixed answer. Building the settings and the
  client is configuration and is taken to succeed.
\<close>

definition analyze_with_llm ::
  "(string \<Rightarrow> error + string option list) \<Rightarrow> (string \<Rightarrow> string + json) \<Rightarrow> string \<Rightarrow> json" where
  "analyze_with_llm create loads prompt =
     (case create prompt of
        Inl ex \<Rightarrow> ANALYSIS_UNAVAILABLE
      | Inr [] \<Rightarrow> ANALYSIS_UNAVAILABLE
      | Inr (None # _) \<Rightarrow> ANALYSIS_UNAVAILABLE
      | Inr (Some content # _) \<Rightarrow>
          if content = [] then ANALYSIS_UNAVAILABLE
          else (case loads (case brace_span content of Some g \<Rightarrow> g | None \<Rightarrow> content) of
                  Inl msg \<Rightarrow> ANALYSIS_UNAVAILABLE
                | Inr v \<Rightarrow> v))"

text \<open>\<^verbatim>\<open>s.split("\n")\<close>.\<close>

fun split_nl :: "string \<Rightarrow> string list" where
  "split_nl [] = [[]]"
| "split_nl (c # cs) =
     (if c = newline then [] # split_nl cs
      else (case split_nl cs of
              [] \<Rightarrow> [[c]]
            | w # rest \<Rightarrow> (c # w) # rest))"

record analysis =
  returned :: json
  llm_calls :: "string list"

text \<open>
  \<^verbatim>\<open>analyze_build_log\<close>. \<open>llm_calls\<close> lists the prompts passed to
  \<^verbatim>\<open>analyze_with_llm\<close>. The two item assignments at the end raise \<^verbatim>\<open>TypeError\<close> when the
  collaborator's JSON is not a dictionary.
\<close>

definition analyze_build_log ::
  "(string \<Rightarrow> error + string option list) \<Rightarrow> (string \<Rightarrow> string + json) \<Rightarrow> string \<Rightarrow>
     (string \<times> string) list option \<Rightarrow> error + analysis" where
  "analyze_build_log create loads log_content build_info =
     (let log_lines = split_nl log_content;
          errors = find_error_lines_with_context log_lines 5
      in if errors = []
         then Inr \<lparr>returned = JObj [(''root_causes'', JArr []),
                                    (''summary'', JArr [JStr ''No errors found in build log'']),
                                    (''error_count'', JInt 0)],
                   llm_calls = []\<rparr>
         else (let categories = categorize_errors errors;
                   prompt = create_focused_prompt errors build_info
               in case analyze_with_llm create loads prompt of
                    JObj d \<Rightarrow>
                      Inr \<lparr>returned =
                             JObj (AList.update ''categories''
                                     (JObj (map (\<lambda>(k, v). (k, JInt (int (length v)))) categories))
                                     (AList.update ''error_count'' (JInt (int (length errors))) d)),
                           llm_calls = [prompt]\<rparr>
                  | _ \<Rightarrow> Inl TypeError))"

section \<open>Vocabulary of the claims and concrete inputs\<close>

text \<open>The result that a run wrote to \<^verbatim>\<open>hybrid_result.json\<close>, if it wrote one.\<close>

definition written_result :: "error + outcome \<Rightarrow> json option" where
  "written_result r =
     (case r of
        Inl ex \<Rightarrow> None
      | Inr out \<Rightarrow> (case written out of None \<Rightarrow> None | Some art \<Rightarrow> Some (hybrid_result art)))"






text \<open>
  The result for a log without errors in the words of the specification: the two fields
  \<^verbatim>\<open>root_causes\<close> and \<^verbatim>\<open>summary\<close> and nothing else.
\<close>

definition no_errors_result :: json where
  "no_errors_result =
     JObj [(''root_causes'', JArr []),
           (''summary'', JArr [JStr ''No errors found in build log''])]"

text \<open>The defaults of the argument parser, no environment variables, and stub clients.\<close>

definition default_args :: args where
  "default_args =
     \<lparr>arg_backend = None, arg_model = None, arg_context = 5, arg_cluster_window = 8,
      arg_max_sections = 10, arg_max_chars = 12000\<rparr>"

definition empty_env :: env where
  "empty_env = \<lparr>HYBRID_BACKEND = None, HYBRID_MODEL = None\<rparr>"

definition ollama_replying :: "string \<Rightarrow> clients" where
  "ollama_replying reply =
     \<lparr>ollama_generate = (\<lambda>prompt model. Inr reply),
      openai_module = Inr True,
      openai_chat = (\<lambda>prompt model. Inl BackendError),
      anthropic_messages = (\<lambda>prompt model. Inl BackendError)\<rparr>"



definition loads_failing :: "string \<Rightarrow> string + json" where
  "loads_failing s = Inl ''Expecting value''"



section \<open>Properties of the clusterer\<close>

lemma cluster_loop_concat:
  "clusters \<noteq> [] \<Longrightarrow> concat (cluster_loop w clusters ns) = concat clusters @ ns"
proof (induction ns arbitrary: clusters)
  case Nil
  then show ?case by simp
next
  case (Cons n ns)
  have split: "concat (butlast clusters) @ last clusters = concat clusters"
    using Cons.prems by (metis append_butlast_last_id concat.simps(1,2) concat_append append_Nil2)
  show ?case
  proof (cases "n - last (last clusters) \<le> w")
    case True
    then show ?thesis using Cons.IH [of "butlast clusters @ [last clusters @ [n]]"] split
      by simp
  next
    case False
    then show ?thesis using Cons.IH [of "clusters @ [[n]]"] by simp
  qed
qed

lemma cluster_loop_nonempty:
  "clusters \<noteq> [] \<Longrightarrow> [] \<notin> set clusters \<Longrightarrow> [] \<notin> set (cluster_loop w clusters ns)"
proof (induction ns arbitrary: clusters)
  case Nil
  then show ?case by simp
next
  case (Cons n ns)
  have bl: "[] \<notin> set (butlast clusters)"
    using Cons.prems by (meson in_set_butlastD)
  show ?case
  proof (cases "n - last (last clusters) \<le> w")
    case True
    then show ?thesis using Cons.IH [of "butlast clusters @ [last clusters @ [n]]"] bl by simp
  next
    case False
    then show ?thesis using Cons.IH [of "clusters @ [[n]]"] Cons.prems by simp
  qed
qed

lemma runs_nonempty: "runs w (x # xs) \<noteq> []"
  by (induction xs arbitrary: x) (auto split: list.splits)

lemma cluster_loop_runs:
  "cluster_loop w (cs @ [c @ [x]]) ns =
     cs @ (case runs w (x # ns) of [] \<Rightarrow> [] | g # gs \<Rightarrow> (c @ g) # gs)"
proof (induction ns arbitrary: cs c x)
  case Nil
  then show ?case by simp
next
  case (Cons n ns)
  obtain g gs where g: "runs w (n # ns) = g # gs"
    using runs_nonempty [of w n ns] by (cases "runs w (n # ns)") auto
  show ?case
  proof (cases "n - x \<le> w")
    case True
    have "cluster_loop w (cs @ [c @ [x]]) (n # ns) = cluster_loop w (cs @ [(c @ [x]) @ [n]]) ns"
      using True by simp
    also have "\<dots> = cs @ [] @ (case runs w (n # ns) of [] \<Rightarrow> [] | g # gs \<Rightarrow> ((c @ [x]) @ g) # gs)"
      using Cons.IH [of cs "c @ [x]" n] by simp
    finally show ?thesis using True g by simp
  next
    case False
    have "cluster_loop w (cs @ [c @ [x]]) (n # ns) = cluster_loop w ((cs @ [c @ [x]]) @ [[] @ [n]]) ns"
      using False by simp
    also have "\<dots> = (cs @ [c @ [x]]) @ (case runs w (n # ns) of [] \<Rightarrow> [] | g # gs \<Rightarrow> ([] @ g) # gs)"
      using Cons.IH [of "cs @ [c @ [x]]" "[]" n] by blast
    finally show ?thesis using False g by simp
  qed
qed

lemma cluster_indices_runs: "cluster_indices xs w = runs w xs"
proof (cases xs)
  case Nil
  then show ?thesis by (simp add: cluster_indices_def)
next
  case (Cons x ns)
  obtain g gs where g: "runs w (x # ns) = g # gs"
    using runs_nonempty [of w x ns] by (cases "runs w (x # ns)") auto
  have "cluster_loop w ([] @ [[] @ [x]]) ns = [] @ (case runs w (x # ns) of [] \<Rightarrow> [] | g # gs \<Rightarrow> ([] @ g) # gs)"
    by (rule cluster_loop_runs)
  then show ?thesis using Cons g by (simp add: cluster_indices_def)
qed

lemma runs_hd: "\<exists>g gs. runs w (x # xs) = (x # g) # gs"
  by (induction xs arbitrary: x) (auto split: list.splits)

lemma runs_concat: "concat (runs w xs) = xs"
proof (induction w xs rule: runs.induct)
  case (3 w x y ys)
  then show ?case using runs_nonempty [of w y ys] by (auto split: list.splits)
qed auto

lemma same_cluster_Cons:
  "same_cluster (runs w ys) a b \<Longrightarrow> same_cluster (runs w (x # ys)) a b"
proof (cases ys)
  case Nil
  assume "same_cluster (runs w ys) a b"
  then show ?thesis using Nil by (simp add: same_cluster_def)
next
  case (Cons y zs)
  assume a: "same_cluster (runs w ys) a b"
  obtain g gs where g: "runs w (y # zs) = g # gs"
    using runs_nonempty [of w y zs] by (cases "runs w (y # zs)") auto
  show ?thesis using a Cons g by (auto simp: same_cluster_def list_ex_iff)
qed

lemma in_first_run:
  "sorted_wrt (<) (x # ys) \<Longrightarrow> b \<in> set (x # ys) \<Longrightarrow> b - x \<le> w \<Longrightarrow> b \<in> set (hd (runs w (x # ys)))"
proof (induction ys arbitrary: x)
  case Nil
  then show ?case by simp
next
  case (Cons y zs)
  obtain g gs where g: "runs w (y # zs) = g # gs"
    using runs_nonempty [of w y zs] by (cases "runs w (y # zs)") auto
  show ?case
  proof (cases "b = x")
    case True
    then show ?thesis using g by simp
  next
    case False
    then have bin: "b \<in> set (y # zs)" using Cons.prems(2) by simp
    have yb: "y \<le> b" using bin Cons.prems(1) by auto
    have xy: "x < y" using Cons.prems(1) by simp
    have close: "y - x \<le> w" using yb Cons.prems(3) by linarith
    have "b - y \<le> w" using xy Cons.prems(3) by linarith
    moreover have "sorted_wrt (<) (y # zs)" using Cons.prems(1) by simp
    ultimately have "b \<in> set (hd (runs w (y # zs)))" using Cons.IH bin by blast
    then show ?thesis using close g by simp
  qed
qed

lemma close_same_cluster:
  "sorted_wrt (<) xs \<Longrightarrow> a \<in> set xs \<Longrightarrow> b \<in> set xs \<Longrightarrow> a \<le> b \<Longrightarrow> b - a \<le> w \<Longrightarrow>
     same_cluster (runs w xs) a b"
proof (induction xs)
  case Nil
  then show ?case by simp
next
  case (Cons x ys)
  show ?case
  proof (cases "a = x")
    case True
    obtain g gs where g: "runs w (x # ys) = (x # g) # gs" using runs_hd by blast
    have "b \<in> set (hd (runs w (x # ys)))"
      using in_first_run [OF Cons.prems(1) Cons.prems(3)] Cons.prems(5) True by simp
    then show ?thesis using g True by (simp add: same_cluster_def)
  next
    case False
    then have ain: "a \<in> set ys" using Cons.prems(2) by simp
    have "x < a" using ain Cons.prems(1) by auto
    then have "b \<noteq> x" using Cons.prems(4) by simp
    then have bin: "b \<in> set ys" using Cons.prems(3) by simp
    have "sorted_wrt (<) ys" using Cons.prems(1) by simp
    then have "same_cluster (runs w ys) a b" using Cons.IH ain bin Cons.prems(4,5) by blast
    then show ?thesis by (rule same_cluster_Cons)
  qed
qed

lemma runs_members: "c \<in> set (runs w xs) \<Longrightarrow> set c \<subseteq> set xs"
  using runs_concat [of w xs] by (metis Sup_upper UN_I image_eqI set_concat subsetI)

lemma far_neighbours_split:
  "distinct xs \<Longrightarrow> xs = pre @ a # b # post \<Longrightarrow> b - a > w \<Longrightarrow> \<not> same_cluster (runs w xs) a b"
proof (induction pre arbitrary: xs)
  case Nil
  have "a \<notin> set (b # post)" using Nil by auto
  then have "\<forall>c \<in> set (runs w (b # post)). a \<notin> set c"
    using runs_members by blast
  moreover have "a \<noteq> b" using Nil by auto
  ultimately show ?case using Nil by (auto simp: same_cluster_def list_ex_iff)
next
  case (Cons p ps)
  let ?ys = "ps @ a # b # post"
  have ih: "\<not> same_cluster (runs w ?ys) a b" using Cons by simp
  have pa: "p \<noteq> a" and pb: "p \<noteq> b" using Cons.prems by auto
  obtain y zs where ys: "?ys = y # zs" by (cases ?ys) auto
  obtain g gs where g: "runs w (y # zs) = g # gs"
    using runs_nonempty [of w y zs] by (cases "runs w (y # zs)") auto
  have "runs w (p # y # zs) = (p # g) # gs \<or> runs w (p # y # zs) = [p] # g # gs"
    using g by simp
  then show ?case using ih pa pb ys g Cons.prems(2)
    by (auto simp: same_cluster_def list_ex_iff)
qed

lemma find_from_bounds: "n \<in> set (find_from i ls) \<Longrightarrow> i \<le> n \<and> n < i + int (length ls)"
  by (induction ls arbitrary: i) (fastforce split: if_splits)+

lemma find_from_sorted: "sorted_wrt (<) (find_from i ls)"
proof (induction ls arbitrary: i)
  case Nil
  then show ?case by simp
next
  case (Cons l ls)
  have "\<forall>n \<in> set (find_from (i + 1) ls). i < n"
    using find_from_bounds [of _ "i + 1" ls] by force
  then show ?case using Cons by simp
qed

text \<open>
  C9: for every list of integers and every window, the clusters concatenated in order
  give back the input, and no cluster is empty. Nothing is assumed about the order of
  the input.
\<close>

theorem cluster_indices_partition:
  "concat (cluster_indices xs w) = xs \<and> [] \<notin> set (cluster_indices xs w)"
proof (cases xs)
  case Nil
  then show ?thesis by (simp add: cluster_indices_def)
next
  case (Cons i rest)
  have "concat (cluster_loop w [[i]] rest) = i # rest"
    using cluster_loop_concat [of "[[i]]" w rest] by simp
  moreover have "[] \<notin> set (cluster_loop w [[i]] rest)"
    using cluster_loop_nonempty [of "[[i]]" w rest] by simp
  ultimately show ?thesis using Cons by (simp add: cluster_indices_def)
qed


lemma wide_gap_Cons2:
  "wide_gap_between (x # y # zs) w a b \<longleftrightarrow>
     (a \<le> x \<and> y \<le> b \<and> y - x > w) \<or> wide_gap_between (y # zs) w a b"
  by (simp add: wide_gap_between_def)

lemma wide_gap_single: "\<not> wide_gap_between [x] w a b"
  by (simp add: wide_gap_between_def)

lemma wide_gap_lower:
  "wide_gap_between xs w a b \<Longrightarrow> a' \<le> a \<Longrightarrow> wide_gap_between xs w a' b"
proof -
  assume g: "wide_gap_between xs w a b" and le: "a' \<le> a"
  from g obtain p where p: "p \<in> set (zip xs (tl xs))" "a \<le> fst p" "snd p \<le> b"
      "snd p - fst p > w"
    by (auto simp: wide_gap_between_def list_ex_iff)
  have "a' \<le> fst p" using le p(2) by linarith
  then show ?thesis using p unfolding wide_gap_between_def list_ex_iff by blast
qed

lemma wide_gap_from:
  "sorted_wrt (<) (y # zs) \<Longrightarrow> wide_gap_between (y # zs) w a b \<Longrightarrow>
     wide_gap_between (y # zs) w y b"
proof -
  assume s: "sorted_wrt (<) (y # zs)" and g: "wide_gap_between (y # zs) w a b"
  from g obtain p where p: "p \<in> set (zip (y # zs) zs)" "snd p \<le> b" "snd p - fst p > w"
    by (auto simp: wide_gap_between_def list_ex_iff)
  have "fst p \<in> set (y # zs)" using p(1) by (metis prod.collapse set_zip_leftD)
  then have "y \<le> fst p" using s by auto
  then show ?thesis using p by (auto simp: wide_gap_between_def list_ex_iff)
qed

lemma wide_gap_upper:
  "sorted_wrt (<) (y # zs) \<Longrightarrow> wide_gap_between (y # zs) w a b \<Longrightarrow> y < b"
proof -
  assume s: "sorted_wrt (<) (y # zs)" and g: "wide_gap_between (y # zs) w a b"
  from g obtain p where p: "p \<in> set (zip (y # zs) zs)" "snd p \<le> b"
    by (auto simp: wide_gap_between_def list_ex_iff)
  have "snd p \<in> set zs" using p(1) by (metis prod.collapse set_zip_rightD)
  then have "y < snd p" using s by auto
  then show ?thesis using p(2) by linarith
qed

lemma no_gap_in_first_run:
  "sorted_wrt (<) (x # ys) \<Longrightarrow> b \<in> set (x # ys) \<Longrightarrow> \<not> wide_gap_between (x # ys) w x b \<Longrightarrow>
     b \<in> set (hd (runs w (x # ys)))"
proof (induction ys arbitrary: x)
  case Nil
  then show ?case by simp
next
  case (Cons y zs)
  obtain g gs where g: "runs w (y # zs) = g # gs"
    using runs_nonempty [of w y zs] by (cases "runs w (y # zs)") auto
  show ?case
  proof (cases "b = x")
    case True
    then show ?thesis using g by simp
  next
    case False
    then have bin: "b \<in> set (y # zs)" using Cons.prems(2) by simp
    have sorted: "sorted_wrt (<) (y # zs)" using Cons.prems(1) by simp
    have yb: "y \<le> b" using bin sorted by auto
    have ng: "\<not> (y - x > w)" and rest: "\<not> wide_gap_between (y # zs) w x b"
      using Cons.prems(3) yb by (simp_all add: wide_gap_Cons2)
    have "\<not> wide_gap_between (y # zs) w y b"
    proof
      assume "wide_gap_between (y # zs) w y b"
      then have "wide_gap_between (y # zs) w x b"
        using Cons.prems(1) by (intro wide_gap_lower [of _ w y b x]) auto
      then show False using rest by simp
    qed
    then have "b \<in> set (hd (runs w (y # zs)))" using Cons.IH [OF sorted bin] by blast
    then show ?thesis using ng g by simp
  qed
qed

lemma no_gap_same_cluster:
  "sorted_wrt (<) xs \<Longrightarrow> a \<in> set xs \<Longrightarrow> b \<in> set xs \<Longrightarrow> a \<le> b \<Longrightarrow>
   \<not> wide_gap_between xs w a b \<Longrightarrow> same_cluster (runs w xs) a b"
proof (induction xs)
  case Nil
  then show ?case by simp
next
  case (Cons x ys)
  show ?case
  proof (cases "a = x")
    case True
    obtain g gs where g: "runs w (x # ys) = (x # g) # gs" using runs_hd by blast
    have "b \<in> set (hd (runs w (x # ys)))"
      using no_gap_in_first_run [OF Cons.prems(1) Cons.prems(3)] Cons.prems(5) True by simp
    then show ?thesis using g True by (simp add: same_cluster_def)
  next
    case False
    then have ain: "a \<in> set ys" using Cons.prems(2) by simp
    have "x < a" using ain Cons.prems(1) by auto
    then have "b \<noteq> x" using Cons.prems(4) by simp
    then have bin: "b \<in> set ys" using Cons.prems(3) by simp
    have sorted: "sorted_wrt (<) ys" using Cons.prems(1) by simp
    obtain y zs where ys: "ys = y # zs" using ain by (cases ys) auto
    have "\<not> wide_gap_between ys w a b"
      using Cons.prems(5) ys by (simp add: wide_gap_Cons2)
    then have "same_cluster (runs w ys) a b"
      using Cons.IH [OF sorted ain bin Cons.prems(4)] by blast
    then show ?thesis by (rule same_cluster_Cons)
  qed
qed

lemma same_cluster_tail:
  assumes "same_cluster (runs w (x # y # zs)) a b" and "a \<noteq> x" and "b \<noteq> x"
  shows "same_cluster (runs w (y # zs)) a b"
proof -
  obtain g gs where g: "runs w (y # zs) = g # gs"
    using runs_nonempty [of w y zs] by (cases "runs w (y # zs)") auto
  show ?thesis using assms g
    by (auto simp: same_cluster_def list_ex_iff split: if_splits)
qed

lemma same_cluster_head:
  assumes "same_cluster (runs w (x # y # zs)) x b" and "b \<noteq> x" and "distinct (x # y # zs)"
  shows "y - x \<le> w \<and> same_cluster (runs w (y # zs)) y b"
proof -
  obtain g gs where g: "runs w (y # zs) = (y # g) # gs" using runs_hd by blast
  have mem: "\<forall>c \<in> set (runs w (y # zs)). x \<notin> set c"
    using runs_members [of _ w "y # zs"] assms(3) by auto
  have close: "y - x \<le> w"
  proof (rule ccontr)
    assume "\<not> y - x \<le> w"
    then have "runs w (x # y # zs) = [x] # runs w (y # zs)" by simp
    then show False using assms(1,2) mem by (auto simp: same_cluster_def list_ex_iff)
  qed
  then have r: "runs w (x # y # zs) = (x # y # g) # gs" using g by simp
  have "x \<notin> set (y # g)" and "\<forall>c \<in> set gs. x \<notin> set c" using mem g by auto
  then have "b \<in> set (y # g)" using assms(1,2) r by (auto simp: same_cluster_def list_ex_iff)
  then have "same_cluster (runs w (y # zs)) y b" using g by (simp add: same_cluster_def)
  then show ?thesis using close by simp
qed

lemma same_cluster_no_gap:
  "sorted_wrt (<) xs \<Longrightarrow> a \<in> set xs \<Longrightarrow> b \<in> set xs \<Longrightarrow> a < b \<Longrightarrow>
   same_cluster (runs w xs) a b \<Longrightarrow> \<not> wide_gap_between xs w a b"
proof (induction xs arbitrary: a)
  case Nil
  then show ?case by simp
next
  case (Cons x ys)
  have dist: "distinct (x # ys)" using Cons.prems(1) strict_sorted_iff by blast
  show ?case
  proof (cases ys)
    case Nil
    then show ?thesis by (simp add: wide_gap_single)
  next
    case ys: (Cons y zs)
    have sorted: "sorted_wrt (<) (y # zs)" using Cons.prems(1) ys by simp
    show ?thesis
    proof (cases "a = x")
      case False
      then have ain: "a \<in> set ys" using Cons.prems(2) by simp
      then have xa: "x < a" using Cons.prems(1) by auto
      then have bx: "b \<noteq> x" using Cons.prems(4) by simp
      then have bin: "b \<in> set ys" using Cons.prems(3) by simp
      have "same_cluster (runs w (y # zs)) a b"
        using same_cluster_tail [of w x y zs a b] Cons.prems(5) False bx ys by simp
      then have "\<not> wide_gap_between ys w a b"
        using Cons.IH [of a] sorted ain bin Cons.prems(4) ys by simp
      then show ?thesis using xa ys by (simp add: wide_gap_Cons2)
    next
      case True
      have bx: "b \<noteq> x" using Cons.prems(4) True by simp
      then have bin: "b \<in> set (y # zs)" using Cons.prems(3) ys by simp
      have hd: "y - x \<le> w" and tl: "same_cluster (runs w (y # zs)) y b"
        using same_cluster_head [of w x y zs b] Cons.prems(5) True bx dist ys by simp_all
      have "\<not> wide_gap_between (y # zs) w x b"
      proof
        assume g: "wide_gap_between (y # zs) w x b"
        then have yb: "y < b" using wide_gap_upper [OF sorted] by blast
        have "wide_gap_between (y # zs) w y b" using wide_gap_from [OF sorted g] .
        moreover have "\<not> wide_gap_between (y # zs) w y b"
          using Cons.IH [of y] sorted bin yb tl ys by simp
        ultimately show False by simp
      qed
      then show ?thesis using hd True ys by (simp add: wide_gap_Cons2)
    qed
  qed
qed

text \<open>
  C2, as the code has it: two flagged line numbers at most a window apart are in the same
  cluster; two flagged line numbers are in different clusters exactly when two
  neighbouring flagged line numbers lying between them are more than a window apart. So
  flagged lines further apart than the window are split when such a gap separates them,
  and share a cluster when the flagged lines between them chain them together. In
  particular two neighbouring flagged lines more than a window apart are split.
\<close>

theorem cluster_window:
  "(a \<in> set (find_error_indices log_lines) \<and> b \<in> set (find_error_indices log_lines) \<and>
      \<bar>a - b\<bar> \<le> w \<longrightarrow>
      same_cluster (cluster_indices (find_error_indices log_lines) w) a b) \<and>
   (a \<in> set (find_error_indices log_lines) \<and> b \<in> set (find_error_indices log_lines) \<and>
      a < b \<longrightarrow>
      (same_cluster (cluster_indices (find_error_indices log_lines) w) a b \<longleftrightarrow>
       \<not> wide_gap_between (find_error_indices log_lines) w a b)) \<and>
   (find_error_indices log_lines = pre @ x # y # post \<and> y - x > w \<longrightarrow>
      \<not> same_cluster (cluster_indices (find_error_indices log_lines) w) x y)"
proof (intro conjI impI)
  let ?idx = "find_error_indices log_lines"
  have sorted: "sorted_wrt (<) ?idx"
    by (simp add: find_error_indices_def find_from_sorted)
  {
    assume h: "a \<in> set ?idx \<and> b \<in> set ?idx \<and> \<bar>a - b\<bar> \<le> w"
    show "same_cluster (cluster_indices ?idx w) a b"
    proof (cases "a \<le> b")
      case True
      then have "b - a \<le> w" using h by linarith
      then show ?thesis
        using close_same_cluster [OF sorted, of a b w] h True by (simp add: cluster_indices_runs)
    next
      case False
      then have "a - b \<le> w" "b \<le> a" using h by linarith+
      then have "same_cluster (runs w ?idx) b a"
        using close_same_cluster [OF sorted, of b a w] h by simp
      then show ?thesis by (auto simp: cluster_indices_runs same_cluster_def list_ex_iff)
    qed
  }
  {
    assume h: "a \<in> set ?idx \<and> b \<in> set ?idx \<and> a < b"
    show "same_cluster (cluster_indices ?idx w) a b \<longleftrightarrow> \<not> wide_gap_between ?idx w a b"
    proof
      assume "same_cluster (cluster_indices ?idx w) a b"
      then have "same_cluster (runs w ?idx) a b" by (simp add: cluster_indices_runs)
      then show "\<not> wide_gap_between ?idx w a b"
        using same_cluster_no_gap [OF sorted, of a b w] h by blast
    next
      assume "\<not> wide_gap_between ?idx w a b"
      then have "same_cluster (runs w ?idx) a b"
        using no_gap_same_cluster [OF sorted, of a b w] h by simp
      then show "same_cluster (cluster_indices ?idx w) a b" by (simp add: cluster_indices_runs)
    qed
  }
  {
    assume h: "?idx = pre @ x # y # post \<and> y - x > w"
    have "distinct ?idx" using sorted strict_sorted_iff by blast
    then show "\<not> same_cluster (cluster_indices ?idx w) x y"
      using far_neighbours_split [of ?idx pre x y post w] h by (simp add: cluster_indices_runs)
  }
qed

lemma witness_log_indices:
  "find_error_indices [''error: a'', ''error: b'', ''ok'', ''ok'', ''error: c''] = [1, 2, 5]"
  by code_simp

lemma gap_log_indices:
  "find_error_indices [''error: a'', ''ok'', ''error: b'', ''ok'', ''ok'', ''error: c''] =
     [1, 3, 6]"
  by code_simp

lemma chain_log_indices:
  "find_error_indices [''error: a'', ''error: b'', ''error: c''] = [1, 2, 3]"
  by code_simp

theorem cluster_window_witness:
  "1 \<in> set (find_error_indices [''error: a'', ''error: b'', ''ok'', ''ok'', ''error: c'']) \<and>
   2 \<in> set (find_error_indices [''error: a'', ''error: b'', ''ok'', ''ok'', ''error: c'']) \<and>
   \<bar>1 - 2\<bar> \<le> (1::int) \<and>
   same_cluster (cluster_indices [1, 2, 5] 1) 1 2 \<and>
   find_error_indices [''error: a'', ''error: b'', ''ok'', ''ok'', ''error: c''] = [1] @ 2 # 5 # [] \<and>
   (5::int) - 2 > 1 \<and>
   \<not> same_cluster (cluster_indices [1, 2, 5] 1) 2 5 \<and>
   wide_gap_between [1, 3, 6] 2 1 6 \<and>
   \<not> same_cluster (cluster_indices [1, 3, 6] 2) 1 6 \<and>
   \<not> wide_gap_between [1, 2, 3] 1 1 3 \<and>
   same_cluster (cluster_indices [1, 2, 3] 1) 1 3"
proof -
  have g1: "wide_gap_between [1, 3, 6] 2 1 6"
    by (simp add: wide_gap_between_def)
  have g2: "\<not> wide_gap_between [1, 2, 3] 1 1 3"
    by (simp add: wide_gap_between_def)
  show ?thesis
    using cluster_window
            [of 1 "[''error: a'', ''error: b'', ''ok'', ''ok'', ''error: c'']" 2 1 "[1]" 2 5 "[]"]
          cluster_window
            [of 1 "[''error: a'', ''ok'', ''error: b'', ''ok'', ''ok'', ''error: c'']" 6 2]
          cluster_window [of 1 "[''error: a'', ''error: b'', ''error: c'']" 3 1]
          witness_log_indices gap_log_indices chain_log_indices g1 g2
    by simp
qed

text \<open>
  C2 as stated fails: with window 1 the flagged lines 1, 2, 3 form one cluster, and 1 and 3
  are 2 apart.
\<close>

theorem cluster_window_counterexample:
  "1 \<in> set (find_error_indices [''error: a'', ''error: b'', ''error: c'']) \<and>
   3 \<in> set (find_error_indices [''error: a'', ''error: b'', ''error: c'']) \<and>
   \<bar>1 - 3\<bar> > (1::int) \<and>
   same_cluster (cluster_indices (find_error_indices [''error: a'', ''error: b'', ''error: c'']) 1)
     1 3"
  by (simp add: chain_log_indices cluster_indices_def same_cluster_def)


section \<open>Properties of the extractor\<close>

lemma fold_min_in: "fold min r (x::int) \<in> set (x # r)"
proof (induction r arbitrary: x)
  case Nil
  then show ?case by simp
next
  case (Cons y r)
  have ih: "fold min r (min y x) \<in> set (min y x # r)" using Cons.IH by blast
  have "min y x = x \<or> min y x = y" by linarith
  then show ?case using ih by auto
qed

lemma py_min_in: "c \<noteq> [] \<Longrightarrow> \<exists>m. py_min c = Inr m \<and> m \<in> set c"
  using fold_min_in by (cases c) (auto simp: py_min_def)

lemma py_max_some: "c \<noteq> [] \<Longrightarrow> \<exists>m. py_max c = Inr m"
  by (cases c) (auto simp: py_max_def)

lemma py_index_in_range:
  "1 \<le> m \<Longrightarrow> m \<le> int (length xs) \<Longrightarrow> \<exists>v. py_index xs (m - 1) = Inr v"
  by (simp add: py_index_def)

lemma extract_loop_counted:
  "extract_loop log_lines ctx max_chars cs secs t0 = Inr (secs', t) \<Longrightarrow>
     (secs' = secs \<and> t = t0) \<or> t \<le> max_chars"
proof (induction log_lines ctx max_chars cs secs t0 rule: extract_loop.induct)
  case (1 log_lines ctx max_chars sections total_chars)
  then show ?case by simp
next
  case (2 log_lines ctx max_chars c cs sections total_chars)
  from "2.prems" obtain lo_c where lo: "py_min c = Inr lo_c"
    by (cases "py_min c") auto
  from "2.prems" lo obtain hi_c where hi: "py_max c = Inr hi_c"
    by (cases "py_max c") auto
  let ?chunk = "slice_with_context log_lines (lo_c - ctx) (hi_c + ctx)"
  from "2.prems" lo hi obtain head_line where hl: "py_index log_lines (lo_c - 1) = Inr head_line"
    by (cases "py_index log_lines (lo_c - 1)") (auto simp: Let_def)
  let ?sec = "\<lparr>line_number = lo_c, headline = py_strip head_line, lines = ?chunk\<rparr>"
  let ?full = "int (length (py_strip (join_nl ?chunk)))"
  let ?half = "int (length (join_nl (half_chunk ?chunk)))"
  show ?case
  proof (cases "total_chars + ?full > max_chars")
    case over: True
    show ?thesis
    proof (cases "total_chars + ?half > max_chars")
      case True
      then show ?thesis using "2.prems" lo hi hl over by (simp add: Let_def)
    next
      case False
      have rec: "extract_loop log_lines ctx max_chars cs
                   (sections @ [?sec\<lparr>lines := half_chunk ?chunk\<rparr>]) (total_chars + ?half)
                 = Inr (secs', t)"
        using "2.prems" lo hi hl over False by (simp add: Let_def)
      have "(secs' = sections @ [?sec\<lparr>lines := half_chunk ?chunk\<rparr>] \<and> t = total_chars + ?half)
            \<or> t \<le> max_chars"
        using "2.IH"(1) [OF lo hi refl refl refl hl refl over refl _ rec] False by simp
      then show ?thesis using False by auto
    qed
  next
    case False
    have rec: "extract_loop log_lines ctx max_chars cs (sections @ [?sec]) (total_chars + ?full)
               = Inr (secs', t)"
      using "2.prems" lo hi hl False by (simp add: Let_def)
    have "(secs' = sections @ [?sec] \<and> t = total_chars + ?full) \<or> t \<le> max_chars"
      using "2.IH"(2) [OF lo hi refl refl refl hl refl False rec] by simp
    then show ?thesis using False by auto
  qed
qed

lemma extract_loop_returns:
  "\<forall>c \<in> set cs. c \<noteq> [] \<and> (\<forall>n \<in> set c. 1 \<le> n \<and> n \<le> int (length log_lines)) \<Longrightarrow>
     \<exists>r. extract_loop log_lines ctx max_chars cs secs t0 = Inr r"
proof (induction cs arbitrary: secs t0)
  case Nil
  then show ?case by simp
next
  case (Cons c cs)
  have c: "c \<noteq> []" and inr: "\<forall>n \<in> set c. 1 \<le> n \<and> n \<le> int (length log_lines)"
    using Cons.prems by auto
  obtain lo_c where lo: "py_min c = Inr lo_c" "lo_c \<in> set c" using py_min_in [OF c] by blast
  obtain hi_c where hi: "py_max c = Inr hi_c" using py_max_some [OF c] by blast
  obtain head_line where hl: "py_index log_lines (lo_c - 1) = Inr head_line"
    using py_index_in_range [of lo_c log_lines] inr lo(2) by blast
  have rest: "\<And>s t. \<exists>r. extract_loop log_lines ctx max_chars cs s t = Inr r"
    using Cons.IH Cons.prems by simp
  show ?case using lo(1) hi hl rest by (simp add: Let_def)
qed

lemma runs_no_empty: "[] \<notin> set (runs w xs)"
proof (induction w xs rule: runs.induct)
  case (3 w x y ys)
  then show ?case by (auto split: list.splits)
qed auto

lemma run_sections_returns: "\<exists>secs n. run_sections a log_lines = Inr (secs, n)"
proof -
  let ?idx = "find_error_indices log_lines"
  let ?cl = "py_take (cluster_indices ?idx (arg_cluster_window a)) (arg_max_sections a)"
  have sub: "set ?cl \<subseteq> set (runs (arg_cluster_window a) ?idx)"
    by (auto simp: py_take_def cluster_indices_runs dest: in_set_takeD)
  have "\<forall>c \<in> set ?cl. c \<noteq> [] \<and> (\<forall>n \<in> set c. 1 \<le> n \<and> n \<le> int (length log_lines))"
  proof
    fix c assume "c \<in> set ?cl"
    then have cin: "c \<in> set (runs (arg_cluster_window a) ?idx)" using sub by blast
    then have ne: "c \<noteq> []" using runs_no_empty by metis
    have "set c \<subseteq> set ?idx" using cin by (rule runs_members)
    then have "\<forall>n \<in> set c. 1 \<le> n \<and> n \<le> int (length log_lines)"
      using find_from_bounds [of _ 1 log_lines] by (fastforce simp: find_error_indices_def)
    then show "c \<noteq> [] \<and> (\<forall>n \<in> set c. 1 \<le> n \<and> n \<le> int (length log_lines))"
      using ne by blast
  qed
  then have "\<exists>r. extract_loop log_lines (arg_context a) (arg_max_chars a) ?cl [] 0 = Inr r"
    by (rule extract_loop_returns)
  then obtain secs n where
    "extract_loop log_lines (arg_context a) (arg_max_chars a) ?cl [] 0 = Inr (secs, n)"
    by (metis surj_pair)
  then show ?thesis unfolding run_sections_def extract_sections_def by blast
qed

lemma run_sections_no_errors:
  "find_error_indices log_lines = [] \<Longrightarrow> run_sections a log_lines = Inr ([], 0)"
  by (simp add: run_sections_def extract_sections_def cluster_indices_def py_take_def)

lemma find_from_none: "\<forall>l \<in> set ls. \<not> match_error l \<Longrightarrow> find_from i ls = []"
  by (induction ls arbitrary: i) auto

lemma extract_sections_counted:
  "extract_sections log_lines clusters ctx max_sections max_chars = Inr (secs, t) \<Longrightarrow>
     (secs = [] \<and> t = 0) \<or> t \<le> max_chars"
  unfolding extract_sections_def by (rule extract_loop_counted)

text \<open>
  C1 at a log whose only line is indented: the line is flagged, the section is committed
  in full because the text that is measured is the stripped one (8 characters), and the
  context line that is emitted has 12 characters, more than \<open>max_chars = 10\<close>. The
  running total that the function returns stays within the budget
  (\<open>extract_sections_counted\<close>).
\<close>

theorem extract_sections_budget_overrun:
  "extract_sections [''  error: x  ''] (cluster_indices (find_error_indices [''  error: x  '']) 8)
     5 10 10 =
     Inr ([\<lparr>line_number = 1, headline = ''error: x'', lines = [''  error: x  '']\<rparr>], 8) \<and>
   emitted_chars [\<lparr>line_number = 1, headline = ''error: x'', lines = [''  error: x  '']\<rparr>] = 12"
proof (intro conjI)
  show "extract_sections [''  error: x  '']
          (cluster_indices (find_error_indices [''  error: x  '']) 8) 5 10 10 =
        Inr ([\<lparr>line_number = 1, headline = ''error: x'', lines = [''  error: x  '']\<rparr>], 8)"
    by code_simp
  show "emitted_chars [\<lparr>line_number = 1, headline = ''error: x'', lines = [''  error: x  '']\<rparr>]
        = 12"
    by (simp add: emitted_chars_def section_body_def)
qed

text \<open>
  The half-length path measures the text it emits: with a budget of 7 the same line is
  not emitted at all.
\<close>

lemma extract_sections_half_measured_raw:
  "extract_sections [''  error: x  ''] (cluster_indices (find_error_indices [''  error: x  '']) 8)
     5 10 7 = Inr ([], 0)"
  by code_simp


section \<open>Properties of the validator\<close>

lemma valid_root_cause_iff: "valid_root_cause rc \<longleftrightarrow> accepted_root_cause rc"
proof (cases rc)
  case (JObj r)
  show ?thesis
  proof (cases "map_of r ''evidence''")
    case None
    then show ?thesis using JObj
      by (simp add: valid_root_cause_def accepted_root_cause_def)
  next
    case (Some v)
    then show ?thesis using JObj
      by (cases v) (auto simp: valid_root_cause_def accepted_root_cause_def has_key_def has_field_def)
  qed
qed (simp_all add: valid_root_cause_def accepted_root_cause_def)

lemma valid_schema_iff: "valid_schema obj \<longleftrightarrow> accepted_response obj"
proof (cases obj)
  case (JObj d)
  show ?thesis
  proof (cases "map_of d ''root_causes''")
    case None
    then show ?thesis using JObj
      by (simp add: valid_schema_def accepted_response_def SCHEMA_def has_key_def)
  next
    case rc: (Some v)
    show ?thesis
    proof (cases "map_of d ''summary''")
      case None
      then show ?thesis using JObj
        by (simp add: valid_schema_def accepted_response_def SCHEMA_def has_key_def)
    next
      case sm: (Some u)
      have "valid_schema obj \<longleftrightarrow>
              (\<exists>rcs sm. v = JArr rcs \<and> u = JArr sm \<and> list_all valid_root_cause rcs)"
        using JObj rc sm
        by (cases v; cases u)
           (simp_all add: valid_schema_def SCHEMA_def has_key_def isinstance_def get_list_def)
      then show ?thesis using JObj rc sm
        by (auto simp: accepted_response_def list_all_iff valid_root_cause_iff)
    qed
  qed
qed (simp_all add: valid_schema_def accepted_response_def)

lemma parse_ok_valid:
  "snd (parse_llm_response loads raw) = [] \<Longrightarrow> valid_schema (fst (parse_llm_response loads raw))"
  by (auto simp: parse_llm_response_def Let_def split: if_splits sum.splits)

text \<open>
  C3, as the code has it: the validator accepts only a top-level object whose
  \<^verbatim>\<open>root_causes\<close> and \<^verbatim>\<open>summary\<close> are arrays and whose every root cause is an object
  that has the keys \<^verbatim>\<open>cause\<close>, \<^verbatim>\<open>confidence\<close> and \<^verbatim>\<open>next_action\<close> (with any value, null
  included) and a non-empty \<^verbatim>\<open>evidence\<close> array; a response that \<^verbatim>\<open>parse_llm_response\<close>
  returns without an error message is of that form.
\<close>

theorem validator_accepts_only:
  "(valid_schema obj \<longrightarrow> accepted_response obj) \<and>
   (snd (parse_llm_response loads raw) = [] \<longrightarrow>
      accepted_response (fst (parse_llm_response loads raw)))"
  using valid_schema_iff parse_ok_valid by blast

lemma null_fields_valid: "valid_schema null_fields_response"
  by code_simp

lemma null_fields_parsed:
  "parse_llm_response (loads_at null_fields_text null_fields_response) null_fields_text =
     (null_fields_response, [])"
  by code_simp

theorem validator_accepts_only_witness:
  "valid_schema null_fields_response \<and> accepted_response null_fields_response \<and>
   snd (parse_llm_response (loads_at null_fields_text null_fields_response) null_fields_text) = [] \<and>
   accepted_response
     (fst (parse_llm_response (loads_at null_fields_text null_fields_response) null_fields_text))"
  using validator_accepts_only
          [of null_fields_response "loads_at null_fields_text null_fields_response"
              null_fields_text]
        null_fields_valid null_fields_parsed
  by simp

text \<open>
  C3 as stated fails: a root cause whose \<^verbatim>\<open>cause\<close>, \<^verbatim>\<open>confidence\<close> and \<^verbatim>\<open>next_action\<close> are
  present but null is accepted.
\<close>

theorem validator_null_counterexample:
  "parse_llm_response (loads_at null_fields_text null_fields_response) null_fields_text =
     (null_fields_response, []) \<and>
   valid_schema null_fields_response \<and>
   \<not> strict_response null_fields_response"
proof -
  have "\<not> strict_response null_fields_response"
    by (simp add: strict_response_def strict_root_cause_def non_null_field_def
                  null_fields_response_def)
  then show ?thesis using null_fields_valid null_fields_parsed by simp
qed

text \<open>
  C4: the two malformed inputs of the specification are rejected, and they are still
  rejected when a \<^verbatim>\<open>summary\<close> array is added, so that the wrong type of \<^verbatim>\<open>root_causes\<close>
  and the missing keys of the root cause are what is refused. In general an object is
  accepted exactly when its \<^verbatim>\<open>root_causes\<close> and \<^verbatim>\<open>summary\<close> are arrays and every root
  cause carries the three fields and a non-empty evidence array.
\<close>

theorem schema_check_examples:
  "\<not> valid_schema (JObj [(''root_causes'', JStr ''x'')]) \<and>
   \<not> valid_schema (JObj [(''root_causes'', JStr ''x''), (''summary'', JArr [])]) \<and>
   \<not> valid_schema (JObj [(''root_causes'', JArr [JObj [(''cause'', JStr ''x'')]])]) \<and>
   \<not> valid_schema (JObj [(''root_causes'', JArr [JObj [(''cause'', JStr ''x'')]]),
                         (''summary'', JArr [])]) \<and>
   (valid_schema obj \<longleftrightarrow> accepted_response obj)"
proof (intro conjI)
  show "\<not> valid_schema (JObj [(''root_causes'', JStr ''x'')])"
    by (simp add: valid_schema_def SCHEMA_def has_key_def isinstance_def)
  show "\<not> valid_schema (JObj [(''root_causes'', JStr ''x''), (''summary'', JArr [])])"
    by (simp add: valid_schema_def SCHEMA_def has_key_def isinstance_def)
  show "\<not> valid_schema (JObj [(''root_causes'', JArr [JObj [(''cause'', JStr ''x'')]])])"
    by (simp add: valid_schema_def SCHEMA_def has_key_def isinstance_def)
  show "\<not> valid_schema (JObj [(''root_causes'', JArr [JObj [(''cause'', JStr ''x'')]]),
                               (''summary'', JArr [])])"
    by (simp add: valid_schema_def SCHEMA_def has_key_def isinstance_def get_list_def
                  valid_root_cause_def)
  show "valid_schema obj \<longleftrightarrow> accepted_response obj"
    by (rule valid_schema_iff)
qed

lemma full_response_accepted: "accepted_response full_response"
  by (simp add: accepted_response_def accepted_root_cause_def has_field_def full_response_def)

theorem schema_check_examples_witness:
  "accepted_response full_response \<and> valid_schema full_response"
  using schema_check_examples [of full_response] full_response_accepted by simp

section \<open>Properties of the fallback and of the run\<close>














lemma run_no_sections:
  "read_lines file = Inr log_lines \<Longrightarrow> run_sections a log_lines = Inr ([], n) \<Longrightarrow>
     run a e cl loads file = Inr \<lparr>status = 0, written = None, backend_calls = []\<rparr>"
  by (simp add: run_def)





















lemma cmake_log_other:
  "categorise_sections
     [\<lparr>line_number = 1, headline = ''CMake Error: x'', lines = [''CMake Error: x'']\<rparr>] =
   [(''other'',
     [\<lparr>line_number = 1, headline = ''CMake Error: x'', lines = [''CMake Error: x'']\<rparr>])]"
  by code_simp























section \<open>Properties of a log without errors\<close>

lemma find_errors_from_none:
  "\<forall>l \<in> set ls. \<not> list_ex (\<lambda>pat. re_search True pat (strip_ansi l)) ERROR_PATTERNS \<Longrightarrow>
     find_errors_from all_lines k i ls = []"
  by (induction ls arbitrary: i) (simp_all add: Let_def)

text \<open>
  C8, as the code has it. When no line of the log matches an error rule, neither pipeline
  calls the collaborator. \<^verbatim>\<open>analyze_build_log\<close> finds no error sections and returns
  \<^verbatim>\<open>root_causes\<close> empty, the summary \<^verbatim>\<open>No errors found in build log\<close> and a third
  field, \<^verbatim>\<open>error_count\<close>, which is 0. The command-line \<^verbatim>\<open>run\<close> gets zero sections, ends
  with status 0 and writes no result.
\<close>

theorem no_errors_early_exit:
  "((\<forall>l \<in> set raw_lines. \<not> match_error (strip_ansi l)) \<longrightarrow>
      run_sections a (map strip_ansi raw_lines) = Inr ([], 0) \<and>
      run a e cl loads (Some raw_lines) = Inr \<lparr>status = 0, written = None, backend_calls = []\<rparr>) \<and>
   ((\<forall>l \<in> set (split_nl log_content).
        \<not> list_ex (\<lambda>pat. re_search True pat (strip_ansi l)) ERROR_PATTERNS) \<longrightarrow>
      find_error_lines_with_context (split_nl log_content) 5 = [] \<and>
      analyze_build_log create loads' log_content build_info =
        Inr \<lparr>returned = JObj [(''root_causes'', JArr []),
                               (''summary'', JArr [JStr ''No errors found in build log'']),
                               (''error_count'', JInt 0)],
             llm_calls = []\<rparr>)"
proof (intro conjI impI)
  assume h: "\<forall>l \<in> set raw_lines. \<not> match_error (strip_ansi l)"
  have idx: "find_error_indices (map strip_ansi raw_lines) = []"
    using h by (simp add: find_error_indices_def find_from_none)
  show s: "run_sections a (map strip_ansi raw_lines) = Inr ([], 0)"
    using idx by (rule run_sections_no_errors)
  have "read_lines (Some raw_lines) = Inr (map strip_ansi raw_lines)"
    by (simp add: read_lines_def)
  then show "run a e cl loads (Some raw_lines) =
               Inr \<lparr>status = 0, written = None, backend_calls = []\<rparr>"
    using s by (rule run_no_sections)
next
  assume h: "\<forall>l \<in> set (split_nl log_content).
               \<not> list_ex (\<lambda>pat. re_search True pat (strip_ansi l)) ERROR_PATTERNS"
  show none: "find_error_lines_with_context (split_nl log_content) 5 = []"
    using h by (simp add: find_error_lines_with_context_def find_errors_from_none)
  show "analyze_build_log create loads' log_content build_info =
        Inr \<lparr>returned = JObj [(''root_causes'', JArr []),
                               (''summary'', JArr [JStr ''No errors found in build log'']),
                               (''error_count'', JInt 0)],
             llm_calls = []\<rparr>"
    using none by (simp add: analyze_build_log_def)
qed

lemma quiet_lines_unflagged:
  "\<forall>l \<in> set [''compiling foo.c'', ''done'']. \<not> match_error (strip_ansi l)"
  by code_simp

lemma quiet_content_unflagged:
  "\<forall>l \<in> set (split_nl ''compiling foo.c\<newline>done'').
     \<not> list_ex (\<lambda>pat. re_search True pat (strip_ansi l)) ERROR_PATTERNS"
  by code_simp

lemma quiet_run:
  "run default_args empty_env (ollama_replying ''unused'') loads_failing
     (Some [''compiling foo.c'', ''done'']) =
     Inr \<lparr>status = 0, written = None, backend_calls = []\<rparr>"
  by code_simp

lemma quiet_analysis:
  "analyze_build_log (\<lambda>prompt. Inr [Some ''unused'']) loads_failing
     ''compiling foo.c\<newline>done'' None =
     Inr \<lparr>returned = JObj [(''root_causes'', JArr []),
                            (''summary'', JArr [JStr ''No errors found in build log'']),
                            (''error_count'', JInt 0)],
          llm_calls = []\<rparr>"
  by code_simp

theorem no_errors_early_exit_witness:
  "\<not> list_ex (\<lambda>l. match_error (strip_ansi l)) [''compiling foo.c'', ''done''] \<and>
   run_sections default_args (map strip_ansi [''compiling foo.c'', ''done'']) = Inr ([], 0) \<and>
   run default_args empty_env (ollama_replying ''unused'') loads_failing
     (Some [''compiling foo.c'', ''done'']) =
     Inr \<lparr>status = 0, written = None, backend_calls = []\<rparr> \<and>
   \<not> list_ex (\<lambda>l. list_ex (\<lambda>pat. re_search True pat (strip_ansi l)) ERROR_PATTERNS)
         (split_nl ''compiling foo.c\<newline>done'') \<and>
   find_error_lines_with_context (split_nl ''compiling foo.c\<newline>done'') 5 = [] \<and>
   analyze_build_log (\<lambda>prompt. Inr [Some ''unused'']) loads_failing
     ''compiling foo.c\<newline>done'' None =
     Inr \<lparr>returned = JObj [(''root_causes'', JArr []),
                            (''summary'', JArr [JStr ''No errors found in build log'']),
                            (''error_count'', JInt 0)],
          llm_calls = []\<rparr>"
proof -
  have one: "\<not> list_ex (\<lambda>l. match_error (strip_ansi l)) [''compiling foo.c'', ''done'']"
    using quiet_lines_unflagged unfolding list_ex_iff by blast
  have two: "\<not> list_ex (\<lambda>l. list_ex (\<lambda>pat. re_search True pat (strip_ansi l)) ERROR_PATTERNS)
                   (split_nl ''compiling foo.c\<newline>done'')"
    using quiet_content_unflagged unfolding list_ex_iff by blast
  show ?thesis
    using no_errors_early_exit
            [of "[''compiling foo.c'', ''done'']" default_args empty_env
                "ollama_replying ''unused''" loads_failing "''compiling foo.c\<newline>done''"
                "\<lambda>prompt. Inr [Some ''unused'']" loads_failing None]
          quiet_lines_unflagged quiet_content_unflagged one two
    by blast
qed

text \<open>
  C8 as stated fails in the result: for a log of two lines that match no rule, the
  command-line run writes no result at all, and what \<^verbatim>\<open>analyze_build_log\<close> returns is
  not the object of two fields, since it also carries \<^verbatim>\<open>error_count\<close>.
\<close>

theorem no_errors_result_counterexample:
  "\<not> list_ex (\<lambda>l. match_error (strip_ansi l)) [''compiling foo.c'', ''done''] \<and>
   written_result (run default_args empty_env (ollama_replying ''unused'') loads_failing
                     (Some [''compiling foo.c'', ''done''])) = None \<and>
   \<not> list_ex (\<lambda>l. list_ex (\<lambda>pat. re_search True pat (strip_ansi l)) ERROR_PATTERNS)
         (split_nl ''compiling foo.c\<newline>done'') \<and>
   (\<exists>r. analyze_build_log (\<lambda>prompt. Inr [Some ''unused'']) loads_failing
           ''compiling foo.c\<newline>done'' None = Inr r \<and>
        returned r \<noteq> no_errors_result \<and>
        map_of (case returned r of JObj d \<Rightarrow> d | _ \<Rightarrow> []) ''error_count'' = Some (JInt 0))"
proof -
  have one: "\<not> list_ex (\<lambda>l. match_error (strip_ansi l)) [''compiling foo.c'', ''done'']"
    using quiet_lines_unflagged unfolding list_ex_iff by blast
  have two: "\<not> list_ex (\<lambda>l. list_ex (\<lambda>pat. re_search True pat (strip_ansi l)) ERROR_PATTERNS)
                   (split_nl ''compiling foo.c\<newline>done'')"
    using quiet_content_unflagged unfolding list_ex_iff by blast
  have three: "written_result (run default_args empty_env (ollama_replying ''unused'')
                   loads_failing (Some [''compiling foo.c'', ''done''])) = None"
    by (simp add: quiet_run written_result_def)
  have four: "\<exists>r. analyze_build_log (\<lambda>prompt. Inr [Some ''unused'']) loads_failing
           ''compiling foo.c\<newline>done'' None = Inr r \<and>
        returned r \<noteq> no_errors_result \<and>
        map_of (case returned r of JObj d \<Rightarrow> d | _ \<Rightarrow> []) ''error_count'' = Some (JInt 0)"
    by (simp add: quiet_analysis no_errors_result_def)
  show ?thesis using one two three four by blast
qed

section \<open>Properties of the categorizer\<close>

lemma first_category_none:
  "\<forall>rule \<in> set rules. \<not> re_search False (snd rule) text \<Longrightarrow> first_category rules text = ''other''"
  by (induction rules) auto

lemma first_category_some:
  "\<exists>rule \<in> set rules. re_search False (snd rule) text \<Longrightarrow>
     first_category rules text \<in> fst ` set rules"
proof (induction rules)
  case Nil
  then show ?case by simp
next
  case (Cons rule rules)
  obtain name r where rule: "rule = (name, r)" by (cases rule)
  show ?case
  proof (cases "re_search False r text")
    case True
    then show ?thesis using rule by simp
  next
    case False
    then have "\<exists>rule \<in> set rules. re_search False (snd rule) text"
      using Cons.prems rule by simp
    then have "first_category rules text \<in> fst ` set rules" by (rule Cons.IH)
    then show ?thesis using False rule by simp
  qed
qed

lemma category_names: "fst ` set CATEGORY_RULES =
    {''linker_missing'', ''linker_undefined'', ''cmake_config'', ''compilation''}"
  by (auto simp: CATEGORY_RULES_def)

text \<open>
  C10: \<^verbatim>\<open>categorise_section\<close> searches the category expressions as they are compiled,
  without \<^verbatim>\<open>re.IGNORECASE\<close>. It returns \<^verbatim>\<open>other\<close> exactly when no expression matches
  the text case-sensitively. The line \<^verbatim>\<open>CMake Error: x\<close> is flagged by the error detector,
  which ignores case, and matches the \<^verbatim>\<open>cmake_config\<close> expression only when case is
  ignored: its category is \<^verbatim>\<open>other\<close>, both as a text and as the only line of a section,
  while the same line in lower case is categorised as \<^verbatim>\<open>cmake_config\<close>.
\<close>

theorem categorise_case_sensitive:
  "(categorise_section text = ''other'' \<longleftrightarrow>
      (\<forall>rule \<in> set CATEGORY_RULES. \<not> re_search False (snd rule) text)) \<and>
   match_error ''CMake Error: x'' \<and>
   list_ex (\<lambda>rule. fst rule = ''cmake_config'' \<and> re_search True (snd rule) ''CMake Error: x'')
     CATEGORY_RULES \<and>
   categorise_section ''CMake Error: x'' = ''other'' \<and>
   categorise_section ''cmake error: x'' = ''cmake_config'' \<and>
   categorise_sections
     [\<lparr>line_number = 1, headline = ''CMake Error: x'', lines = [''CMake Error: x'']\<rparr>] =
   [(''other'',
     [\<lparr>line_number = 1, headline = ''CMake Error: x'', lines = [''CMake Error: x'']\<rparr>])]"
proof (intro conjI)
  show "categorise_section text = ''other'' \<longleftrightarrow>
      (\<forall>rule \<in> set CATEGORY_RULES. \<not> re_search False (snd rule) text)"
  proof
    assume o: "categorise_section text = ''other''"
    show "\<forall>rule \<in> set CATEGORY_RULES. \<not> re_search False (snd rule) text"
    proof (rule ccontr)
      assume "\<not> (\<forall>rule \<in> set CATEGORY_RULES. \<not> re_search False (snd rule) text)"
      then have "\<exists>rule \<in> set CATEGORY_RULES. re_search False (snd rule) text" by blast
      then have "first_category CATEGORY_RULES text \<in> fst ` set CATEGORY_RULES"
        by (rule first_category_some)
      then have "''other'' \<in> {''linker_missing'', ''linker_undefined'', ''cmake_config'',
                               ''compilation''}"
        using o category_names by (simp add: categorise_section_def)
      then show False by simp
    qed
  next
    assume "\<forall>rule \<in> set CATEGORY_RULES. \<not> re_search False (snd rule) text"
    then show "categorise_section text = ''other''"
      by (simp add: categorise_section_def first_category_none)
  qed
  show "match_error ''CMake Error: x''" by code_simp
  show "list_ex (\<lambda>rule. fst rule = ''cmake_config'' \<and> re_search True (snd rule) ''CMake Error: x'')
          CATEGORY_RULES"
    by code_simp
  show "categorise_section ''CMake Error: x'' = ''other''" by code_simp
  show "categorise_section ''cmake error: x'' = ''cmake_config''" by code_simp
  show "categorise_sections
     [\<lparr>line_number = 1, headline = ''CMake Error: x'', lines = [''CMake Error: x'']\<rparr>] =
   [(''other'',
     [\<lparr>line_number = 1, headline = ''CMake Error: x'', lines = [''CMake Error: x'']\<rparr>])]"
    by (rule cmake_log_other)
qed

lemma cmake_line_unmatched:
  "\<forall>rule \<in> set CATEGORY_RULES. \<not> re_search False (snd rule) ''CMake Error: x''"
  by code_simp

theorem categorise_case_sensitive_witness:
  "\<not> list_ex (\<lambda>rule. re_search False (snd rule) ''CMake Error: x'') CATEGORY_RULES \<and>
   categorise_section ''CMake Error: x'' = ''other''"
proof -
  have "\<not> list_ex (\<lambda>rule. re_search False (snd rule) ''CMake Error: x'') CATEGORY_RULES"
    using cmake_line_unmatched unfolding list_ex_iff by blast
  then show ?thesis
    using categorise_case_sensitive [of "''CMake Error: x''"] cmake_line_unmatched by blast
qed

end
